theory Spec2Isabelle
  imports Complex_Main "HOL-Library.AList"
begin

section \<open>JavaScript values as the server handles them\<close>

text \<open>
  The server (\<^verbatim>\<open>server.js\<close>) keeps quests, markers and categories as plain JavaScript
  values that arrive as deserialised message payloads or from the parsed durability file.
  A value is a tree:
  \<^item> \<open>JObj ps\<close> is a plain object, \<open>ps\<close> its own properties in insertion order;
  \<^item> \<open>JArr xs ex\<close> is an array with elements \<open>xs\<close> and named (non-index) own
    properties \<open>ex\<close>: an array is an object, and \<^verbatim>\<open>quest.id = ...\<close> on an array
    payload creates such a property;
  \<^item> numbers are the finite doubles, held as the rationals they are; \<^verbatim>\<open>NaN\<close>, the
    infinities and the sign of zero are outside the model. The one sum the store computes,
    \<^verbatim>\<open>Date.now() + Math.random()\<close>, is rounded to a double as the platform rounds it
    (\<open>to_double\<close> below);
  \<^item> strings are lists of characters.

  Every object or array that reaches the store was deserialised on its own, so two of them
  are never the same reference: identity comparisons (\<^verbatim>\<open>===\<close>, \<^verbatim>\<open>includes\<close>,
  \<^verbatim>\<open>indexOf\<close>, \<^verbatim>\<open>Set\<close> membership) between an object and anything else are false.
\<close>

datatype jsval =
    JUndefined
  | JNull
  | JBool bool
  | JNum rat
  | JStr string
  | JArr "jsval list" "(string \<times> jsval) list"
  | JObj "(string \<times> jsval) list"

type_synonym props = "(string \<times> jsval) list"

datatype error = TypeError

fun truthy :: "jsval \<Rightarrow> bool" where
  "truthy JUndefined = False"
| "truthy JNull = False"
| "truthy (JBool b) = b"
| "truthy (JNum n) = (n \<noteq> 0)"
| "truthy (JStr s) = (s \<noteq> [])"
| "truthy (JArr xs ex) = True"
| "truthy (JObj ps) = True"

text \<open>\<^verbatim>\<open>a || b\<close>\<close>

definition js_or :: "jsval \<Rightarrow> jsval \<Rightarrow> jsval" where
  "js_or a b = (if truthy a then a else b)"

fun is_object :: "jsval \<Rightarrow> bool" where
  "is_object (JObj ps) = True"
| "is_object (JArr xs ex) = True"
| "is_object v = False"

fun is_nullish :: "jsval \<Rightarrow> bool" where
  "is_nullish JUndefined = True"
| "is_nullish JNull = True"
| "is_nullish v = False"

text \<open>
  \<^verbatim>\<open>a === b\<close> for two values that are not the same reference (also the comparison of
  \<^verbatim>\<open>includes\<close>, \<^verbatim>\<open>indexOf\<close> and \<^verbatim>\<open>Set\<close> on the finite numbers of the model).
\<close>

fun strict_eq :: "jsval \<Rightarrow> jsval \<Rightarrow> bool" where
  "strict_eq JUndefined JUndefined = True"
| "strict_eq JNull JNull = True"
| "strict_eq (JBool a) (JBool b) = (a = b)"
| "strict_eq (JNum a) (JNum b) = (a = b)"
| "strict_eq (JStr a) (JStr b) = (a = b)"
| "strict_eq a b = False"

text \<open>
  A property read \<^verbatim>\<open>o.k\<close>. It throws on \<^verbatim>\<open>null\<close> and \<^verbatim>\<open>undefined\<close>. The names the
  server reads (\<^verbatim>\<open>id\<close>, \<^verbatim>\<open>title\<close>, \<^verbatim>\<open>user\<close>, \<^verbatim>\<open>status\<close>, \<^verbatim>\<open>createdAt\<close>,
  \<^verbatim>\<open>quests\<close>, \<^verbatim>\<open>markers\<close>, \<^verbatim>\<open>customCategories\<close>, \<^verbatim>\<open>analytics\<close>,
  \<^verbatim>\<open>lastUpdated\<close>) are on no built-in prototype, so the read gives the own property or
  \<^verbatim>\<open>undefined\<close>; a primitive has none.
\<close>

definition own :: "props \<Rightarrow> string \<Rightarrow> jsval" where
  "own ps k = (case map_of ps k of None \<Rightarrow> JUndefined | Some v \<Rightarrow> v)"

fun get_prop :: "jsval \<Rightarrow> string \<Rightarrow> error + jsval" where
  "get_prop JUndefined k = Inl TypeError"
| "get_prop JNull k = Inl TypeError"
| "get_prop (JObj ps) k = Inr (own ps k)"
| "get_prop (JArr xs ex) k = Inr (own ex k)"
| "get_prop v k = Inr JUndefined"

text \<open>
  A property write \<^verbatim>\<open>o.k = v\<close> in strict mode (a class body is strict code): it throws
  on every primitive. On an object an existing property keeps its place and a new one is
  added last. The names the server writes (\<^verbatim>\<open>id\<close>, \<^verbatim>\<open>createdAt\<close>, \<^verbatim>\<open>status\<close>,
  \<^verbatim>\<open>updatedAt\<close>, \<^verbatim>\<open>lastUpdated\<close>) are neither array indices nor \<^verbatim>\<open>length\<close>, so on
  an array they are named properties.
\<close>

fun set_prop :: "jsval \<Rightarrow> string \<Rightarrow> jsval \<Rightarrow> error + jsval" where
  "set_prop (JObj ps) k v = Inr (JObj (AList.update k v ps))"
| "set_prop (JArr xs ex) k v = Inr (JArr xs (AList.update k v ex))"
| "set_prop w k v = Inl TypeError"

text \<open>
  \<^verbatim>\<open>Object.assign(target, source)\<close> with the own properties of \<open>source\<close>: it throws on
  \<^verbatim>\<open>null\<close> and \<^verbatim>\<open>undefined\<close>, writes to a wrapper that is thrown away when the target
  is another primitive, and writes the properties in order otherwise.
\<close>

fun assign_props :: "jsval \<Rightarrow> props \<Rightarrow> jsval" where
  "assign_props (JObj ps) us = JObj (fold (\<lambda>(k, v). AList.update k v) us ps)"
| "assign_props (JArr xs ex) us = JArr xs (fold (\<lambda>(k, v). AList.update k v) us ex)"
| "assign_props w us = w"

definition object_assign :: "jsval \<Rightarrow> props \<Rightarrow> error + jsval" where
  "object_assign target us = (if is_nullish target then Inl TypeError else Inr (assign_props target us))"


definition and_then :: "error + 'a \<Rightarrow> ('a \<Rightarrow> error + 'b) \<Rightarrow> error + 'b" where
  "and_then r f = (case r of Inl e \<Rightarrow> Inl e | Inr x \<Rightarrow> f x)"

text \<open>
  Conversion to a string, as a template literal does it; \<open>num\<close> is the platform's
  printing of a number. A plain object prints as \<^verbatim>\<open>[object Object]\<close> through the
  inherited \<^verbatim>\<open>toString\<close>; an own property of that name is data, not a function, and
  then no conversion exists and a \<^verbatim>\<open>TypeError\<close> is thrown. An array joins the strings of
  its elements with commas, \<^verbatim>\<open>null\<close> and \<^verbatim>\<open>undefined\<close> printing as nothing.
\<close>

fun join_comma :: "string list \<Rightarrow> string" where
  "join_comma [] = []"
| "join_comma [s] = s"
| "join_comma (s # t # ss) = s @ '','' @ join_comma (t # ss)"

fun to_string :: "(rat \<Rightarrow> string) \<Rightarrow> jsval \<Rightarrow> error + string"
  and elem_strings :: "(rat \<Rightarrow> string) \<Rightarrow> jsval list \<Rightarrow> error + string list" where
  "to_string num JUndefined = Inr ''undefined''"
| "to_string num JNull = Inr ''null''"
| "to_string num (JBool b) = Inr (if b then ''true'' else ''false'')"
| "to_string num (JNum n) = Inr (num n)"
| "to_string num (JStr s) = Inr s"
| "to_string num (JObj ps) =
     (case map_of ps ''toString'' of None \<Rightarrow> Inr ''[object Object]'' | Some v \<Rightarrow> Inl TypeError)"
| "to_string num (JArr xs ex) =
     (case map_of ex ''toString'' of
        Some v \<Rightarrow> Inl TypeError
      | None \<Rightarrow>
          (case map_of ex ''join'' of
             Some v \<Rightarrow> Inr ''[object Array]''
           | None \<Rightarrow> (case elem_strings num xs of Inl e \<Rightarrow> Inl e | Inr ss \<Rightarrow> Inr (join_comma ss))))"
| "elem_strings num [] = Inr []"
| "elem_strings num (x # xs) =
     (case (if is_nullish x then Inr [] else to_string num x) of
        Inl e \<Rightarrow> Inl e
      | Inr s \<Rightarrow> (case elem_strings num xs of Inl e \<Rightarrow> Inl e | Inr ss \<Rightarrow> Inr (s # ss)))"

text \<open>\<^verbatim>\<open>hay.includes(needle)\<close> on strings: \<open>needle\<close> occurs in \<open>hay\<close>.\<close>

fun starts_with :: "string \<Rightarrow> string \<Rightarrow> bool" where
  "starts_with hay [] = True"
| "starts_with [] (c # cs) = False"
| "starts_with (h # hs) (c # cs) = (h = c \<and> starts_with hs cs)"

fun str_includes :: "string \<Rightarrow> string \<Rightarrow> bool" where
  "str_includes [] needle = (needle = [])"
| "str_includes (h # hs) needle = (starts_with (h # hs) needle \<or> str_includes hs needle)"

text \<open>
  \<^verbatim>\<open>v.length\<close>: the element count of an array, the length of a string, an own property
  of a plain object, nothing on a number or a boolean.
\<close>

fun js_length :: "jsval \<Rightarrow> error + jsval" where
  "js_length JUndefined = Inl TypeError"
| "js_length JNull = Inl TypeError"
| "js_length (JArr xs ex) = Inr (JNum (of_nat (length xs)))"
| "js_length (JStr s) = Inr (JNum (of_nat (length s)))"
| "js_length (JObj ps) = Inr (own ps ''length'')"
| "js_length v = Inr JUndefined"

section \<open>The platform\<close>

text \<open>
  What a run of a method or handler reads from the platform: the clock
  (\<^verbatim>\<open>Date.now()\<close>, the \<open>k\<close>-th \<^verbatim>\<open>new Date().toISOString()\<close> of the run,
  \<^verbatim>\<open>new Date().toDateString()\<close>), the random source, the date parser
  (\<^verbatim>\<open>new Date(x).toDateString()\<close>), the printing of numbers, and whether
  \<^verbatim>\<open>fs.writeFileSync\<close> succeeds.
\<close>

record env =
  dateNow :: int
  mathRandom :: rat
  toISOString :: "nat \<Rightarrow> string"
  toDateString :: string
  dateStringOf :: "jsval \<Rightarrow> string"
  numberToString :: "rat \<Rightarrow> string"
  writeFileOk :: bool

text \<open>
  \<^verbatim>\<open>new Date(x).toDateString()\<close>: the constructor first converts an object to a
  primitive, which throws exactly where the conversion to a string does.
\<close>

definition date_string :: "env \<Rightarrow> jsval \<Rightarrow> error + string" where
  "date_string e x =
     (case to_string (numberToString e) x of Inl err \<Rightarrow> Inl err | Inr t \<Rightarrow> Inr (dateStringOf e x))"

section \<open>DataStore\<close>

text \<open>
  \<^verbatim>\<open>this.data\<close> with its four fields, and \<^verbatim>\<open>this.autoSaveTimeout\<close> (whether a
  debounce timer was armed; when the timers fire is outside the model). The fields are
  values, not lists: \<^verbatim>\<open>loadData\<close> adopts whatever truthy value the file holds.
  The marker methods repeat the quest methods on \<^verbatim>\<open>this.data.markers\<close> and are not
  repeated here, nor are the two methods that empty a list.
\<close>

record store =
  quests :: jsval
  markers :: jsval
  customCategories :: jsval
  analytics :: jsval
  autoSaveTimeout :: bool

datatype disk = NoFile | Unreadable | Malformed | Document jsval

datatype log = LogLoaded string string | LogLoadError | LogSaved | LogSaveError

definition scheduleSave :: "store \<Rightarrow> store" where
  "scheduleSave s = s\<lparr>autoSaveTimeout := True\<rparr>"

text \<open>
  The rounding of a real to the nearest double (binary64, ties to even), on rationals.
  \<open>binade x\<close> is the exponent \<open>k\<close> with \<open>2\<^sup>k \<le> |x| < 2\<^sup>k\<^sup>+\<^sup>1\<close>, found by halving or
  doubling; the doubles of that binade are the multiples of \<open>2\<^sup>k\<^sup>-\<^sup>5\<^sup>2\<close>, and from the
  exponent \<open>-1022\<close> down the spacing stays \<open>2\<^sup>-\<^sup>1\<^sup>0\<^sup>7\<^sup>4\<close>. \<open>rne\<close> is the nearest integer, the even
  one of two equally near. The overflow to infinity is not modelled: the sums rounded
  here are far below it, a time value being at most \<open>8.64e15\<close> in magnitude.
\<close>

definition pow2 :: "int \<Rightarrow> rat" where
  "pow2 k = (if 0 \<le> k then 2 ^ nat k else 1 / 2 ^ nat (- k))"

definition rne :: "rat \<Rightarrow> int" where
  "rne y =
     (let f = \<lfloor>y\<rfloor>; d = y - of_int f
      in if d < 1 / 2 then f else if 1 / 2 < d then f + 1 else if even f then f else f + 1)"

function binade_up :: "rat \<Rightarrow> nat" where
  "binade_up x = (if x < 2 then 0 else Suc (binade_up (x / 2)))"
  by pat_completeness auto
termination
proof (relation "measure (\<lambda>x. nat \<lfloor>x\<rfloor>)")
  show "wf (measure (\<lambda>x. nat \<lfloor>x\<rfloor>))" by simp
next
  fix x :: rat
  assume "\<not> x < 2"
  then have x: "2 \<le> x" by simp
  then have "x / 2 \<le> x - 1" by simp
  then have "\<lfloor>x / 2\<rfloor> \<le> \<lfloor>x - 1\<rfloor>" by (rule floor_mono)
  then have "\<lfloor>x / 2\<rfloor> < \<lfloor>x\<rfloor>" by simp
  moreover from x have "2 \<le> \<lfloor>x\<rfloor>" by (simp add: le_floor_iff)
  ultimately show "(x / 2, x) \<in> measure (\<lambda>x. nat \<lfloor>x\<rfloor>)" by simp
qed

function binade_down :: "rat \<Rightarrow> nat" where
  "binade_down x = (if x \<le> 0 \<or> 1 / 2 \<le> x then 1 else Suc (binade_down (2 * x)))"
  by pat_completeness auto
termination
proof (relation "measure (\<lambda>x. nat \<lfloor>1 / x\<rfloor>)")
  show "wf (measure (\<lambda>x. nat \<lfloor>1 / x\<rfloor>))" by simp
next
  fix x :: rat
  assume "\<not> (x \<le> 0 \<or> 1 / 2 \<le> x)"
  then have x: "0 < x" "x < 1 / 2" by simp_all
  then have y: "2 \<le> 1 / x" by (simp add: field_simps)
  then have "(1 / x) / 2 \<le> 1 / x - 1" by simp
  then have "\<lfloor>(1 / x) / 2\<rfloor> \<le> \<lfloor>1 / x - 1\<rfloor>" by (rule floor_mono)
  then have "\<lfloor>1 / (2 * x)\<rfloor> < \<lfloor>1 / x\<rfloor>" by (simp add: mult.commute)
  moreover from y have "2 \<le> \<lfloor>1 / x\<rfloor>" by (simp add: le_floor_iff)
  ultimately show "(2 * x, x) \<in> measure (\<lambda>x. nat \<lfloor>1 / x\<rfloor>)" by simp
qed

declare binade_up.simps [simp del] binade_down.simps [simp del]

definition binade :: "rat \<Rightarrow> int" where
  "binade x = (if 1 \<le> \<bar>x\<bar> then int (binade_up \<bar>x\<bar>) else - int (binade_down \<bar>x\<bar>))"

definition to_double :: "rat \<Rightarrow> rat" where
  "to_double x =
     (if x = 0 then 0
      else let u = pow2 (max (binade x) (- 1022) - 52) in of_int (rne (x / u)) * u)"

text \<open>
  \<^verbatim>\<open>Date.now() + Math.random()\<close>: the real sum of the two readings, and the double that
  the addition yields.
\<close>

definition drawn :: "env \<Rightarrow> rat" where
  "drawn e = of_int (dateNow e) + mathRandom e"

definition new_id :: "env \<Rightarrow> rat" where
  "new_id e = to_double (drawn e)"

text \<open>\<^verbatim>\<open>arr.unshift(x)\<close>: only an array has the method.\<close>

fun unshift :: "jsval \<Rightarrow> jsval \<Rightarrow> error + jsval" where
  "unshift (JArr xs ex) x = Inr (JArr (x # xs) ex)"
| "unshift v x = Inl TypeError"

definition addQuest :: "env \<Rightarrow> jsval \<Rightarrow> store \<Rightarrow> error + (store \<times> jsval)" where
  "addQuest e quest s =
     and_then (set_prop quest ''id'' (JNum (new_id e))) (\<lambda>q1.
     and_then (set_prop q1 ''createdAt'' (JStr (toISOString e 0))) (\<lambda>q2.
     and_then (unshift (quests s) q2) (\<lambda>qs.
       Inr (scheduleSave (s\<lparr>quests := qs\<rparr>), q2))))"

text \<open>
  \<^verbatim>\<open>quests.find(q => q.id === id)\<close> and \<^verbatim>\<open>quests.findIndex(q => q.id === id)\<close>: the
  first element whose \<^verbatim>\<open>id\<close> is the one looked for, with its index. Reading \<^verbatim>\<open>q.id\<close>
  throws on a \<^verbatim>\<open>null\<close> element.
\<close>

fun find_by_id :: "jsval list \<Rightarrow> jsval \<Rightarrow> error + (nat \<times> jsval) option" where
  "find_by_id [] i = Inr None"
| "find_by_id (q # qs) i =
     and_then (get_prop q ''id'') (\<lambda>v.
       if strict_eq v i then Inr (Some (0, q))
       else and_then (find_by_id qs i) (\<lambda>r.
         Inr (case r of None \<Rightarrow> None | Some (n, q') \<Rightarrow> Some (Suc n, q'))))"

definition updateQuest :: "env \<Rightarrow> jsval \<Rightarrow> props \<Rightarrow> store \<Rightarrow> error + (store \<times> jsval)" where
  "updateQuest e i updates s =
     (case quests s of
        JArr qs ex \<Rightarrow>
          and_then (find_by_id qs i) (\<lambda>r.
            case r of
              None \<Rightarrow> Inr (s, JNull)
            | Some (n, quest) \<Rightarrow>
                if truthy quest then
                  and_then (object_assign quest updates) (\<lambda>q1.
                  and_then (set_prop q1 ''updatedAt'' (JStr (toISOString e 0))) (\<lambda>q2.
                    Inr (scheduleSave (s\<lparr>quests := JArr (qs[n := q2]) ex\<rparr>), q2)))
                else Inr (s, JNull))
      | v \<Rightarrow> Inl TypeError)"

definition deleteQuest :: "jsval \<Rightarrow> store \<Rightarrow> error + (store \<times> jsval)" where
  "deleteQuest i s =
     (case quests s of
        JArr qs ex \<Rightarrow>
          and_then (find_by_id qs i) (\<lambda>r.
            case r of
              None \<Rightarrow> Inr (s, JNull)
            | Some (n, deleted) \<Rightarrow>
                Inr (scheduleSave (s\<lparr>quests := JArr (take n qs @ drop (Suc n) qs) ex\<rparr>), deleted))
      | v \<Rightarrow> Inl TypeError)"


text \<open>
  \<^verbatim>\<open>cats.includes(name)\<close> and \<^verbatim>\<open>cats.indexOf(name)\<close> on an array. When the file set
  \<^verbatim>\<open>customCategories\<close> to a string, the same calls are the string's: the name is
  converted to a string and looked for as a substring, and \<^verbatim>\<open>push\<close> and \<^verbatim>\<open>splice\<close>
  do not exist.
\<close>

definition array_includes :: "jsval list \<Rightarrow> jsval \<Rightarrow> bool" where
  "array_includes cs v = list_ex (\<lambda>c. strict_eq c v) cs"

fun index_of :: "jsval list \<Rightarrow> jsval \<Rightarrow> nat option" where
  "index_of [] v = None"
| "index_of (c # cs) v =
     (if strict_eq c v then Some 0 else (case index_of cs v of None \<Rightarrow> None | Some n \<Rightarrow> Some (Suc n)))"

definition addCategory :: "env \<Rightarrow> jsval \<Rightarrow> store \<Rightarrow> error + (store \<times> jsval)" where
  "addCategory e name s =
     (case customCategories s of
        JArr cs ex \<Rightarrow>
          if \<not> array_includes cs name then
            Inr (scheduleSave (s\<lparr>customCategories := JArr (cs @ [name]) ex\<rparr>), name)
          else Inr (s, JNull)
      | JStr str \<Rightarrow>
          and_then (to_string (numberToString e) name) (\<lambda>n.
            if \<not> str_includes str n then Inl TypeError else Inr (s, JNull))
      | v \<Rightarrow> Inl TypeError)"

definition deleteCategory :: "env \<Rightarrow> jsval \<Rightarrow> store \<Rightarrow> error + (store \<times> jsval)" where
  "deleteCategory e name s =
     (case customCategories s of
        JArr cs ex \<Rightarrow>
          (case index_of cs name of
             Some n \<Rightarrow>
               Inr (scheduleSave (s\<lparr>customCategories := JArr (take n cs @ drop (Suc n) cs) ex\<rparr>), cs ! n)
           | None \<Rightarrow> Inr (s, JNull))
      | JStr str \<Rightarrow>
          and_then (to_string (numberToString e) name) (\<lambda>n.
            if str_includes str n then Inl TypeError else Inr (s, JNull))
      | v \<Rightarrow> Inl TypeError)"

text \<open>
  \<^verbatim>\<open>arr.filter(f).length\<close> and \<^verbatim>\<open>arr.map(f)\<close> with a callback that may throw; only
  an array has the methods.
\<close>

fun count_where :: "(jsval \<Rightarrow> error + bool) \<Rightarrow> jsval list \<Rightarrow> error + nat" where
  "count_where f [] = Inr 0"
| "count_where f (x # xs) =
     and_then (f x) (\<lambda>b. and_then (count_where f xs) (\<lambda>n. Inr (if b then Suc n else n)))"

fun filter_length :: "(jsval \<Rightarrow> error + bool) \<Rightarrow> jsval \<Rightarrow> error + jsval" where
  "filter_length f (JArr xs ex) = and_then (count_where f xs) (\<lambda>n. Inr (JNum (of_nat n)))"
| "filter_length f v = Inl TypeError"

fun map_each :: "(jsval \<Rightarrow> error + jsval) \<Rightarrow> jsval list \<Rightarrow> error + jsval list" where
  "map_each f [] = Inr []"
| "map_each f (x # xs) = and_then (f x) (\<lambda>y. and_then (map_each f xs) (\<lambda>ys. Inr (y # ys)))"

text \<open>\<^verbatim>\<open>new Set(values).size\<close>: a value counts once however often it occurs.\<close>

fun set_size :: "jsval list \<Rightarrow> nat" where
  "set_size [] = 0"
| "set_size (x # xs) = (if list_ex (\<lambda>y. strict_eq x y) xs then set_size xs else Suc (set_size xs))"

fun active_users :: "jsval \<Rightarrow> error + jsval" where
  "active_users (JArr xs ex) =
     and_then (map_each (\<lambda>q. get_prop q ''user'') xs) (\<lambda>us. Inr (JNum (of_nat (set_size us))))"
| "active_users v = Inl TypeError"

definition getStats :: "env \<Rightarrow> store \<Rightarrow> error + jsval" where
  "getStats e s =
     and_then (filter_length (\<lambda>m.
         and_then (get_prop m ''createdAt'') (\<lambda>c.
         and_then (date_string e c) (\<lambda>markerDate. Inr (markerDate = toDateString e))))
       (markers s)) (\<lambda>markersToday.
     and_then (js_length (quests s)) (\<lambda>totalQuests.
     and_then (js_length (markers s)) (\<lambda>totalMarkers.
     and_then (filter_length (\<lambda>q. and_then (get_prop q ''status'') (\<lambda>st. Inr (strict_eq st (JStr ''open''))))
       (quests s)) (\<lambda>questsOpen.
     and_then (filter_length (\<lambda>q. and_then (get_prop q ''status'') (\<lambda>st. Inr (strict_eq st (JStr ''taken''))))
       (quests s)) (\<lambda>questsTaken.
     and_then (active_users (quests s)) (\<lambda>activeUsers.
     and_then (js_length (customCategories s)) (\<lambda>categoryCount.
     and_then (get_prop (analytics s) ''lastUpdated'') (\<lambda>lastUpdated.
       Inr (JObj
         [(''totalQuests'', totalQuests),
          (''totalMarkers'', totalMarkers),
          (''questsOpen'', questsOpen),
          (''questsTaken'', questsTaken),
          (''activeUsers'', activeUsers),
          (''markersToday'', markersToday),
          (''customCategories'', categoryCount),
          (''lastUpdated'', lastUpdated)])))))))))"

definition getAllData :: "store \<Rightarrow> jsval" where
  "getAllData s =
     JObj [(''quests'', quests s), (''markers'', markers s), (''customCategories'', customCategories s)]"

section \<open>The durability file\<close>

text \<open>
  The file is held as the value its text denotes: \<open>Document v\<close> when the text parses to
  \<open>v\<close>, \<open>Malformed\<close> when \<^verbatim>\<open>JSON.parse\<close> throws, \<open>Unreadable\<close> when the read does.
  \<open>to_json v\<close> is the value that the text \<^verbatim>\<open>JSON.stringify(v)\<close> parses back to
  (\<open>None\<close> when there is no text): a property whose value is \<^verbatim>\<open>undefined\<close> is left
  out, an \<^verbatim>\<open>undefined\<close> element is written as \<^verbatim>\<open>null\<close>, and of an array only the
  elements are written.
\<close>

fun to_json :: "jsval \<Rightarrow> jsval option"
  and to_json_elems :: "jsval list \<Rightarrow> jsval list"
  and to_json_props :: "props \<Rightarrow> props" where
  "to_json JUndefined = None"
| "to_json JNull = Some JNull"
| "to_json (JBool b) = Some (JBool b)"
| "to_json (JNum n) = Some (JNum n)"
| "to_json (JStr s) = Some (JStr s)"
| "to_json (JArr xs ex) = Some (JArr (to_json_elems xs) [])"
| "to_json (JObj ps) = Some (JObj (to_json_props ps))"
| "to_json_elems [] = []"
| "to_json_elems (x # xs) = (case to_json x of None \<Rightarrow> JNull | Some j \<Rightarrow> j) # to_json_elems xs"
| "to_json_props [] = []"
| "to_json_props ((k, v) # ps) =
     (case to_json v of None \<Rightarrow> to_json_props ps | Some j \<Rightarrow> (k, j) # to_json_props ps)"

definition saveData :: "env \<Rightarrow> store \<Rightarrow> disk \<Rightarrow> store \<times> disk \<times> log list" where
  "saveData e s d =
     (case set_prop (analytics s) ''lastUpdated'' (JStr (toISOString e 0)) of
        Inl err \<Rightarrow> (s, d, [LogSaveError])
      | Inr a \<Rightarrow>
          let s' = s\<lparr>analytics := a\<rparr> in
          if writeFileOk e then
            (s', Document (JObj (to_json_props
                   [(''quests'', quests s'),
                    (''markers'', markers s'),
                    (''customCategories'', customCategories s'),
                    (''analytics'', analytics s')])), [LogSaved])
          else (s', d, [LogSaveError]))"

text \<open>
  The line logged after a successful load prints \<^verbatim>\<open>quests.length\<close> and
  \<^verbatim>\<open>markers.length\<close>; when printing throws, the fields are already assigned.
\<close>

definition loaded_line :: "env \<Rightarrow> store \<Rightarrow> error + log" where
  "loaded_line e s =
     and_then (js_length (quests s)) (\<lambda>n.
     and_then (to_string (numberToString e) n) (\<lambda>a.
     and_then (js_length (markers s)) (\<lambda>m.
     and_then (to_string (numberToString e) m) (\<lambda>b. Inr (LogLoaded a b)))))"

definition loadData :: "env \<Rightarrow> store \<Rightarrow> disk \<Rightarrow> store \<times> log list" where
  "loadData e s d =
     (case d of
        NoFile \<Rightarrow> (s, [])
      | Unreadable \<Rightarrow> (s, [LogLoadError])
      | Malformed \<Rightarrow> (s, [LogLoadError])
      | Document savedData \<Rightarrow>
          (case get_prop savedData ''quests'' of
             Inl err \<Rightarrow> (s, [LogLoadError])
           | Inr q \<Rightarrow>
               let s1 = s\<lparr>quests := js_or q (JArr [] [])\<rparr> in
               (case get_prop savedData ''markers'' of
                  Inl err \<Rightarrow> (s1, [LogLoadError])
                | Inr m \<Rightarrow>
                    let s2 = s1\<lparr>markers := js_or m (JArr [] [])\<rparr> in
                    (case get_prop savedData ''customCategories'' of
                       Inl err \<Rightarrow> (s2, [LogLoadError])
                     | Inr c \<Rightarrow>
                         let s3 = s2\<lparr>customCategories := js_or c (customCategories s2)\<rparr> in
                         (case get_prop savedData ''analytics'' of
                            Inl err \<Rightarrow> (s3, [LogLoadError])
                          | Inr a \<Rightarrow>
                              let s4 = s3\<lparr>analytics := js_or a (analytics s3)\<rparr> in
                              (case loaded_line e s4 of
                                 Inl err \<Rightarrow> (s4, [LogLoadError])
                               | Inr l \<Rightarrow> (s4, [l])))))))"

text \<open>The constructor: the defaults, then \<^verbatim>\<open>loadData\<close>, then no timer armed.\<close>

definition defaults :: "env \<Rightarrow> store" where
  "defaults e =
     \<lparr>quests = JArr [] [],
      markers = JArr [] [],
      customCategories =
        JArr [JStr ''design'', JStr ''programming'', JStr ''marketing'', JStr ''writing'', JStr ''other''] [],
      analytics = JObj [(''totalConnections'', JNum 0), (''lastUpdated'', JStr (toISOString e 0))],
      autoSaveTimeout = False\<rparr>"

definition DataStore :: "env \<Rightarrow> disk \<Rightarrow> store \<times> log list" where
  "DataStore e d = (case loadData e (defaults e) d of (s, l) \<Rightarrow> (s\<lparr>autoSaveTimeout := False\<rparr>, l))"


section \<open>The connection registry and the realtime gateway\<close>

text \<open>
  \<^verbatim>\<open>connectedUsers\<close> (a \<^verbatim>\<open>Map\<close> from socket id to a record of the connection) and
  \<^verbatim>\<open>adminSockets\<close> (a \<^verbatim>\<open>Set\<close> of socket ids), both in insertion order, beside the
  store.
\<close>

record gateway =
  dataStore :: store
  connectedUsers :: "(string \<times> jsval) list"
  adminSockets :: "string list"

text \<open>
  The classification of a connecting socket by its \<^verbatim>\<open>referer\<close> header (absent:
  \<open>None\<close>), and the registry's part of the connection handler: the socket is recorded,
  and added to the admin set when classified so. The handler's other update,
  \<^verbatim>\<open>dataStore.data.analytics.totalConnections++\<close>, is left out of \<open>register_socket\<close>: it
  writes one property of the analytics, which the registry and the messages below never
  read, and on analytics without a numeric counter it stores \<^verbatim>\<open>NaN\<close>, which the numbers
  of this model do not include.
\<close>

definition isAdmin :: "string option \<Rightarrow> bool" where
  "isAdmin referer =
     (case referer of
        None \<Rightarrow> False
      | Some r \<Rightarrow> str_includes r ''/admin'' \<or> str_includes r ''?admin=true'' \<or> str_includes r ''#admin'')"

definition register_socket :: "env \<Rightarrow> string \<Rightarrow> string option \<Rightarrow> jsval \<Rightarrow> gateway \<Rightarrow> gateway" where
  "register_socket e sid referer userAgent g =
     g\<lparr>connectedUsers :=
         AList.update sid
           (JObj [(''id'', JStr sid), (''connectedAt'', JStr (toISOString e 0)), (''userAgent'', userAgent)])
           (connectedUsers g),
       adminSockets :=
         (if isAdmin referer then
            (if sid \<in> set (adminSockets g) then adminSockets g else adminSockets g @ [sid])
          else adminSockets g)\<rparr>"

text \<open>
  What a handler sends: \<^verbatim>\<open>io.emit\<close> to every connected socket, \<^verbatim>\<open>io.to(id).emit\<close> to
  the room named \<open>id\<close> (a socket is in the room of its own id and in no other),
  \<^verbatim>\<open>socket.emit\<close> to the socket of the handler. A payload travels as JSON text, so a
  client receives \<open>wire v\<close> of the value \<open>v\<close> sent.
\<close>

datatype target = AllClients | Room string | Socket string

type_synonym emission = "target \<times> string \<times> jsval"

definition wire :: "jsval \<Rightarrow> jsval" where
  "wire v = (case to_json v of None \<Rightarrow> JNull | Some j \<Rightarrow> j)"

fun delivered :: "gateway \<Rightarrow> string \<Rightarrow> target \<Rightarrow> bool" where
  "delivered g c AllClients = (c \<in> set (map fst (connectedUsers g)))"
| "delivered g c (Room r) = (r = c \<and> c \<in> set (map fst (connectedUsers g)))"
| "delivered g c (Socket x) = (x = c)"

definition inbox :: "gateway \<Rightarrow> string \<Rightarrow> emission list \<Rightarrow> (string \<times> jsval) list" where
  "inbox g c ems = map (\<lambda>(t, ev, v). (ev, wire v)) (filter (\<lambda>(t, ev, v). delivered g c t) ems)"

text \<open>
  The result of a handler: it returned (after catching, where it catches), with the
  gateway as it left it and what it sent; or the exception left the handler, which nothing
  above it catches.
\<close>

datatype outcome = Handled gateway "emission list" | Uncaught error

text \<open>
  \<^verbatim>\<open>adminSockets.forEach(...)\<close> of the \<^verbatim>\<open>addQuest\<close> handler, from the \<open>k\<close>-th clock
  reading on: the notification is built (the title printed into the message) and sent to
  each admin in turn; an exception ends the loop with what was sent before it.
\<close>

fun notify_admins :: "env \<Rightarrow> jsval \<Rightarrow> string list \<Rightarrow> nat \<Rightarrow> emission list \<times> error option" where
  "notify_admins e newQuest [] k = ([], None)"
| "notify_admins e newQuest (adminId # rest) k =
     (case and_then (get_prop newQuest ''title'') (to_string (numberToString e)) of
        Inl err \<Rightarrow> ([], Some err)
      | Inr title \<Rightarrow>
          (case notify_admins e newQuest rest (Suc k) of
             (ems, r) \<Rightarrow>
               ((Room adminId, ''adminNotification'',
                 JObj [(''type'', JStr ''quest_added''),
                       (''message'', JStr (''Quest baru: '' @ [CHR 0x22] @ title @ [CHR 0x22])),
                       (''data'', newQuest),
                       (''timestamp'', JStr (toISOString e k))]) # ems, r)))"

definition on_addQuest :: "env \<Rightarrow> string \<Rightarrow> jsval \<Rightarrow> gateway \<Rightarrow> outcome" where
  "on_addQuest e sid questData g =
     (case addQuest e questData (dataStore g) of
        Inl err \<Rightarrow> Handled g [(Socket sid, ''error'', JObj [(''message'', JStr ''Failed to add quest'')])]
      | Inr (s, newQuest) \<Rightarrow>
          (case notify_admins e newQuest (adminSockets g) 1 of
             (ems, None) \<Rightarrow>
               Handled (g\<lparr>dataStore := s\<rparr>) ((AllClients, ''questAdded'', newQuest) # ems)
           | (ems, Some err) \<Rightarrow>
               Handled (g\<lparr>dataStore := s\<rparr>)
                 ((AllClients, ''questAdded'', newQuest) # ems @
                  [(Socket sid, ''error'', JObj [(''message'', JStr ''Failed to add quest'')])])))"

text \<open>
  The \<^verbatim>\<open>updateQuest\<close> handler takes its payload apart in the parameter list,
  \<^verbatim>\<open>({ id, status }) => { try { ... } catch ... }\<close>: that happens before the
  \<^verbatim>\<open>try\<close> is entered.
\<close>

definition on_updateQuest :: "env \<Rightarrow> string \<Rightarrow> jsval \<Rightarrow> gateway \<Rightarrow> outcome" where
  "on_updateQuest e sid payload g =
     (case and_then (get_prop payload ''id'') (\<lambda>i.
           and_then (get_prop payload ''status'') (\<lambda>status. Inr (i, status))) of
        Inl err \<Rightarrow> Uncaught err
      | Inr (i, status) \<Rightarrow>
          (case updateQuest e i [(''status'', status)] (dataStore g) of
             Inl err \<Rightarrow> Handled g []
           | Inr (s, updatedQuest) \<Rightarrow>
               if truthy updatedQuest then
                 Handled (g\<lparr>dataStore := s\<rparr>) [(AllClients, ''questUpdated'', updatedQuest)]
               else Handled (g\<lparr>dataStore := s\<rparr>) []))"

definition on_deleteQuest :: "string \<Rightarrow> jsval \<Rightarrow> gateway \<Rightarrow> outcome" where
  "on_deleteQuest sid questId g =
     (case deleteQuest questId (dataStore g) of
        Inl err \<Rightarrow> Handled g []
      | Inr (s, deletedQuest) \<Rightarrow>
          if truthy deletedQuest then
            Handled (g\<lparr>dataStore := s\<rparr>) [(AllClients, ''questDeleted'', questId)]
          else Handled (g\<lparr>dataStore := s\<rparr>) [])"

text \<open>The \<^verbatim>\<open>getAdminStats\<close> and \<^verbatim>\<open>ping\<close> handlers have no \<^verbatim>\<open>try\<close>.\<close>

definition on_getAdminStats :: "env \<Rightarrow> string \<Rightarrow> gateway \<Rightarrow> outcome" where
  "on_getAdminStats e sid g =
     (case getStats e (dataStore g) of
        Inl err \<Rightarrow> Uncaught err
      | Inr stats \<Rightarrow>
          Handled g
            [(Socket sid, ''adminStats'',
              assign_props stats
                [(''connectedUsers'', JNum (of_nat (length (connectedUsers g)))),
                 (''adminCount'', JNum (of_nat (length (adminSockets g))))])])"

definition on_ping :: "env \<Rightarrow> string \<Rightarrow> gateway \<Rightarrow> outcome" where
  "on_ping e sid g = Handled g [(Socket sid, ''pong'', JObj [(''timestamp'', JStr (toISOString e 0))])]"


section \<open>Sequences of calls\<close>

text \<open>
  A sequence of \<^verbatim>\<open>addQuest\<close> calls, each with its own platform readings and payload;
  the result is the final store and the quests the calls returned, in call order.
\<close>

fun addQuests :: "(env \<times> jsval) list \<Rightarrow> store \<Rightarrow> error + (store \<times> jsval list)" where
  "addQuests [] s = Inr (s, [])"
| "addQuests ((e, quest) # calls) s =
     and_then (addQuest e quest s) (\<lambda>(s1, q).
     and_then (addQuests calls s1) (\<lambda>(s2, qs). Inr (s2, q # qs)))"

datatype category_op = AddCategory jsval | DeleteCategory jsval

fun apply_category_op :: "env \<Rightarrow> category_op \<Rightarrow> store \<Rightarrow> error + (store \<times> jsval)" where
  "apply_category_op e (AddCategory name) s = addCategory e name s"
| "apply_category_op e (DeleteCategory name) s = deleteCategory e name s"

fun category_ops :: "env \<Rightarrow> category_op list \<Rightarrow> store \<Rightarrow> error + store" where
  "category_ops e [] s = Inr s"
| "category_ops e (c # cs) s = and_then (apply_category_op e c s) (\<lambda>(s1, r). category_ops e cs s1)"


section \<open>Notions used in the statements\<close>

text \<open>
  The payload as \<^verbatim>\<open>addQuest\<close> leaves it: \<^verbatim>\<open>id\<close> and \<^verbatim>\<open>createdAt\<close> written, in
  this order.
\<close>

definition stamped :: "env \<Rightarrow> jsval \<Rightarrow> jsval" where
  "stamped e quest =
     assign_props quest [(''id'', JNum (new_id e)), (''createdAt'', JStr (toISOString e 0))]"

text \<open>\<^verbatim>\<open>q.id === i\<close> holds (and reading \<^verbatim>\<open>q.id\<close> does not throw).\<close>

definition id_matches :: "jsval \<Rightarrow> jsval \<Rightarrow> bool" where
  "id_matches q i = (case get_prop q ''id'' of Inl err \<Rightarrow> False | Inr v \<Rightarrow> strict_eq v i)"

text \<open>The value that \<^verbatim>\<open>q.k\<close> reads where the read does not throw.\<close>

definition field :: "jsval \<Rightarrow> string \<Rightarrow> jsval" where
  "field q k = (case get_prop q k of Inl err \<Rightarrow> JUndefined | Inr v \<Rightarrow> v)"

text \<open>
  The values that JSON text can denote: no \<^verbatim>\<open>undefined\<close> anywhere, and no named
  property on an array.
\<close>

fun is_json :: "jsval \<Rightarrow> bool"
  and all_json :: "jsval list \<Rightarrow> bool"
  and props_json :: "props \<Rightarrow> bool" where
  "is_json JUndefined = False"
| "is_json JNull = True"
| "is_json (JBool b) = True"
| "is_json (JNum n) = True"
| "is_json (JStr s) = True"
| "is_json (JArr xs ex) = (ex = [] \<and> all_json xs)"
| "is_json (JObj ps) = props_json ps"
| "all_json [] = True"
| "all_json (x # xs) = (is_json x \<and> all_json xs)"
| "props_json [] = True"
| "props_json ((k, v) # ps) = (is_json v \<and> props_json ps)"

text \<open>Platform readings for the examples: one instant, one random draw.\<close>

definition env0 :: env where
  "env0 =
     \<lparr>dateNow = 1700000000000,
      mathRandom = 1 / 2,
      toISOString = (\<lambda>k. ''2023-11-14T22:13:20.000Z''),
      toDateString = ''Tue Nov 14 2023'',
      dateStringOf = (\<lambda>v. ''Tue Nov 14 2023''),
      numberToString = (\<lambda>n. ''0''),
      writeFileOk = True\<rparr>"

text \<open>A store with one open quest, and a gateway around it with no socket connected.\<close>

definition quest1 :: jsval where
  "quest1 = JObj [(''title'', JStr ''Fix sign''), (''user'', JStr ''alice''), (''status'', JStr ''open''),
                  (''id'', JNum 1), (''createdAt'', JStr ''2023-11-14T22:13:20.000Z'')]"

definition store1 :: store where
  "store1 = (defaults env0)\<lparr>quests := JArr [quest1] []\<rparr>"


text \<open>
  The scenario of the specification: socket \<open>A\<close> connected from the board, socket \<open>B\<close>
  from the admin page, on a fresh store.
\<close>

definition gateway2 :: gateway where
  "gateway2 =
     register_socket env0 ''B'' (Some ''http://localhost:3000/admin'') (JStr ''Mozilla/5.0'')
       (register_socket env0 ''A'' (Some ''http://localhost:3000/'') (JStr ''Mozilla/5.0'')
          \<lparr>dataStore = defaults env0, connectedUsers = [], adminSockets = []\<rparr>)"

section \<open>Properties\<close>

subsection \<open>Basic facts\<close>

lemma and_then_simps [simp]: "and_then (Inl e) f = Inl e" "and_then (Inr x) f = f x"
  by (simp_all add: and_then_def)

lemma own_update: "own (AList.update k v ps) k' = (if k' = k then v else own ps k')"
  by (simp add: own_def update_conv')

lemma binade_up_unique: "2 ^ k \<le> x \<Longrightarrow> x < 2 ^ Suc k \<Longrightarrow> binade_up x = k"
proof (induction k arbitrary: x)
  case 0
  then show ?case by (simp add: binade_up.simps)
next
  case (Suc k)
  have "(2::rat) \<le> 2 ^ Suc k" by (simp add: self_le_power)
  with Suc.prems(1) have "2 \<le> x" by linarith
  moreover from Suc.prems have "2 ^ k \<le> x / 2" "x / 2 < 2 ^ Suc k" by simp_all
  ultimately show ?case using Suc.IH [of "x / 2"] by (subst binade_up.simps) simp
qed

lemma rne_close: "\<bar>of_int (rne y) - y\<bar> \<le> 1 / 2"
proof -
  have "of_int \<lfloor>y\<rfloor> \<le> y" "y < of_int \<lfloor>y\<rfloor> + 1" by linarith+
  then show ?thesis by (auto simp add: rne_def Let_def)
qed

lemma rne_apart:
  assumes "1 < \<bar>a - b\<bar>"
  shows "rne a \<noteq> rne b"
proof
  assume "rne a = rne b"
  with rne_close [of a] rne_close [of b] have "\<bar>a - b\<bar> \<le> 1" by linarith
  with assms show False by simp
qed

lemma rne_near:
  assumes "\<bar>y - of_int m\<bar> < 1 / 2"
  shows "rne y = m"
proof (cases "of_int m \<le> y")
  case True
  with assms have "\<lfloor>y\<rfloor> = m" by (intro floor_unique) linarith+
  with assms True show ?thesis by (simp add: rne_def Let_def)
next
  case False
  have "of_int (m - 1) = (of_int m :: rat) - 1" by simp
  with assms False have "of_int (m - 1) \<le> y" "y < of_int (m - 1) + 1" by linarith+
  then have f: "\<lfloor>y\<rfloor> = m - 1" by (rule floor_unique)
  with assms False show ?thesis by (simp add: rne_def Let_def)
qed

lemma to_double_binade:
  assumes "2 ^ k \<le> x" and "x < 2 ^ Suc k"
  shows "to_double x = of_int (rne (x / pow2 (int k - 52))) * pow2 (int k - 52)"
proof -
  have "(1::rat) \<le> 2 ^ k" by simp
  with assms(1) have x: "1 \<le> x" by linarith
  then have "binade x = int k" using binade_up_unique [OF assms] by (simp add: binade_def)
  with x show ?thesis by (simp add: to_double_def Let_def)
qed

lemma pow2_pos: "0 < pow2 k"
  by (simp add: pow2_def)

lemma to_double_apart:
  assumes "2 ^ k \<le> x" and "x < 2 ^ Suc k" and "2 ^ k \<le> y" and "y < 2 ^ Suc k"
    and "pow2 (int k - 52) < \<bar>x - y\<bar>"
  shows "to_double x \<noteq> to_double y"
proof -
  let ?u = "pow2 (int k - 52)"
  have u: "0 < ?u" by (rule pow2_pos)
  have "\<bar>x / ?u - y / ?u\<bar> = \<bar>x - y\<bar> / ?u"
    using u by (simp add: diff_divide_distrib [symmetric] abs_divide)
  with assms(5) u have "1 < \<bar>x / ?u - y / ?u\<bar>" by (simp add: field_simps)
  then have "rne (x / ?u) \<noteq> rne (y / ?u)" by (rule rne_apart)
  with u show ?thesis
    by (simp add: to_double_binade [OF assms(1,2)] to_double_binade [OF assms(3,4)])
qed

lemma new_id_env0: "new_id env0 = 3400000000001 / 2"
proof -
  have d: "drawn env0 = 3400000000001 / 2" by (simp add: drawn_def env0_def)
  have "to_double (3400000000001 / 2) =
      of_int (rne ((3400000000001 / 2) / pow2 (int 40 - 52))) * pow2 (int 40 - 52)"
    by (rule to_double_binade) simp_all
  moreover have "rne ((3400000000001 / 2) / pow2 (int 40 - 52)) = 6963200000002048"
    by (rule rne_near) (simp add: pow2_def)
  ultimately show ?thesis by (simp add: new_id_def d pow2_def)
qed

lemma new_id_close_draw: "new_id (env0\<lparr>mathRandom := 524289 / 1048576\<rparr>) = 3400000000001 / 2"
proof -
  have d: "drawn (env0\<lparr>mathRandom := 524289 / 1048576\<rparr>) = 1700000000000 + 524289 / 1048576"
    by (simp add: drawn_def env0_def)
  have "to_double (1700000000000 + 524289 / 1048576) =
      of_int (rne ((1700000000000 + 524289 / 1048576) / pow2 (int 40 - 52))) * pow2 (int 40 - 52)"
    by (rule to_double_binade) simp_all
  moreover have "rne ((1700000000000 + 524289 / 1048576) / pow2 (int 40 - 52)) = 6963200000002048"
    by (rule rne_near) (simp add: pow2_def)
  ultimately show ?thesis by (simp add: new_id_def d pow2_def)
qed

lemma addQuest_stamped:
  assumes "is_object quest" and "quests s = JArr qs ex"
  shows "addQuest e quest s =
           Inr (scheduleSave (s\<lparr>quests := JArr (stamped e quest # qs) ex\<rparr>), stamped e quest)"
  using assms by (cases quest) (simp_all add: addQuest_def stamped_def)

lemma stamped_id: "is_object quest \<Longrightarrow> get_prop (stamped e quest) ''id'' = Inr (JNum (new_id e))"
  by (cases quest) (simp_all add: stamped_def own_update)

lemma stamped_createdAt:
  "is_object quest \<Longrightarrow> get_prop (stamped e quest) ''createdAt'' = Inr (JStr (toISOString e 0))"
  by (cases quest) (simp_all add: stamped_def own_update)

lemma stamped_other:
  "is_object quest \<Longrightarrow> k \<noteq> ''id'' \<Longrightarrow> k \<noteq> ''createdAt'' \<Longrightarrow> get_prop (stamped e quest) k = get_prop quest k"
  by (cases quest) (simp_all add: stamped_def own_update)

lemma addQuests_objects:
  assumes "\<forall>c\<in>set calls. is_object (snd c)" and "quests s = JArr qs ex"
  shows "\<exists>s'. addQuests calls s = Inr (s', map (\<lambda>c. stamped (fst c) (snd c)) calls) \<and>
           quests s' = JArr (rev (map (\<lambda>c. stamped (fst c) (snd c)) calls) @ qs) ex"
  using assms
proof (induction calls arbitrary: s qs)
  case Nil
  then show ?case by simp
next
  case (Cons c calls)
  obtain e quest where c: "c = (e, quest)" by (cases c)
  from Cons.prems c have obj: "is_object quest" by simp
  let ?s1 = "scheduleSave (s\<lparr>quests := JArr (stamped e quest # qs) ex\<rparr>)"
  have step: "addQuest e quest s = Inr (?s1, stamped e quest)"
    by (rule addQuest_stamped [OF obj Cons.prems(2)])
  have s1: "quests ?s1 = JArr (stamped e quest # qs) ex" by (simp add: scheduleSave_def)
  from Cons.prems have rest: "\<forall>c\<in>set calls. is_object (snd c)" by simp
  from Cons.IH [OF rest s1] obtain s' where
      r: "addQuests calls ?s1 = Inr (s', map (\<lambda>c. stamped (fst c) (snd c)) calls)"
         "quests s' = JArr (rev (map (\<lambda>c. stamped (fst c) (snd c)) calls) @ stamped e quest # qs) ex"
    by (elim exE conjE)
  have "addQuests (c # calls) s = Inr (s', map (\<lambda>c. stamped (fst c) (snd c)) (c # calls))"
    by (simp add: c step r(1))
  moreover have "quests s' = JArr (rev (map (\<lambda>c. stamped (fst c) (snd c)) (c # calls)) @ qs) ex"
    by (simp add: c r(2))
  ultimately show ?case by (intro exI conjI)
qed


lemma stamped_elems: "stamped e (JArr xs ax) = JArr xs (AList.update ''createdAt'' (JStr (toISOString e 0)) (AList.update ''id'' (JNum (new_id e)) ax))"
  by (simp add: stamped_def)

subsection \<open>Adding quests\<close>

text \<open>
  Claim C1, as the code has it. After any sequence of \<^verbatim>\<open>addQuest\<close> calls with object
  payloads on a store whose quest list is empty, the list holds one quest per call, the
  quests the calls returned, most recent first, and the id of each is the double that
  \<^verbatim>\<open>Date.now() + Math.random()\<close> evaluated to in its call. Those ids are pairwise distinct
  whenever the real sums of the readings lie in one binade \<open>[2\<^sup>k, 2\<^sup>k\<^sup>+\<^sup>1)\<close> and any two of
  them differ by more than the spacing \<open>2\<^sup>k\<^sup>-\<^sup>5\<^sup>2\<close> of the doubles there (for the dates of
  this century \<open>k = 40\<close>, a spacing of \<open>1/4096\<close> of a millisecond).
\<close>

theorem addQuests_from_empty:
  assumes "quests s = JArr [] ex" and "\<forall>c\<in>set calls. is_object (snd c)"
  shows "\<exists>s' qs. addQuests calls s = Inr (s', rev qs) \<and> quests s' = JArr qs ex \<and>
           length qs = length calls \<and>
           qs = rev (map (\<lambda>c. stamped (fst c) (snd c)) calls) \<and>
           map (\<lambda>q. get_prop q ''id'') qs = rev (map (\<lambda>c. Inr (JNum (new_id (fst c)))) calls) \<and>
           ((\<forall>c\<in>set calls. 2 ^ k \<le> drawn (fst c) \<and> drawn (fst c) < 2 ^ Suc k) \<and>
            (\<forall>i<length calls. \<forall>j<i.
               pow2 (int k - 52) < \<bar>drawn (fst (calls ! i)) - drawn (fst (calls ! j))\<bar>) \<longrightarrow>
            distinct (map (\<lambda>q. get_prop q ''id'') qs))"
proof -
  let ?rs = "map (\<lambda>c. stamped (fst c) (snd c)) calls"
  let ?ns = "map (\<lambda>c. new_id (fst c)) calls"
  from addQuests_objects [OF assms(2) assms(1)] obtain s' where
      r: "addQuests calls s = Inr (s', ?rs)" "quests s' = JArr (rev ?rs @ []) ex"
    by (elim exE conjE)
  have ids: "map (\<lambda>q. get_prop q ''id'') ?rs = map (\<lambda>c. Inr (JNum (new_id (fst c)))) calls"
    using assms(2) by (simp add: stamped_id)
  have ids_rev: "map (\<lambda>q. get_prop q ''id'') (rev ?rs) = rev (map (\<lambda>c. Inr (JNum (new_id (fst c)))) calls)"
    using ids by (simp only: rev_map [symmetric])
  have dist: "distinct (map (\<lambda>q. get_prop q ''id'') (rev ?rs))" if d: "distinct ?ns"
  proof -
    have "map (\<lambda>c. Inr (JNum (new_id (fst c))) :: error + jsval) calls =
          map (\<lambda>x. Inr (JNum x)) ?ns"
      by simp
    moreover have "distinct (map (\<lambda>x. Inr (JNum x) :: error + jsval) ?ns)"
      using d by (simp only: distinct_map) (simp add: inj_on_def)
    ultimately have "distinct (rev (map (\<lambda>c. Inr (JNum (new_id (fst c))) :: error + jsval) calls))"
      by (simp only: distinct_rev)
    then show ?thesis by (simp only: ids_rev)
  qed
  have apart: "distinct ?ns"
    if b: "\<forall>c\<in>set calls. 2 ^ k \<le> drawn (fst c) \<and> drawn (fst c) < 2 ^ Suc k"
      and g: "\<forall>i<length calls. \<forall>j<i.
                pow2 (int k - 52) < \<bar>drawn (fst (calls ! i)) - drawn (fst (calls ! j))\<bar>"
  proof -
    have ne: "new_id (fst (calls ! i)) \<noteq> new_id (fst (calls ! j))"
      if i: "i < length calls" and ji: "j < i" for i j
    proof -
      from i ji have j: "j < length calls" by simp
      from b i have bi: "2 ^ k \<le> drawn (fst (calls ! i))" "drawn (fst (calls ! i)) < 2 ^ Suc k"
        by simp_all
      from b j have bj: "2 ^ k \<le> drawn (fst (calls ! j))" "drawn (fst (calls ! j)) < 2 ^ Suc k"
        by simp_all
      from g i ji have sep: "pow2 (int k - 52) < \<bar>drawn (fst (calls ! i)) - drawn (fst (calls ! j))\<bar>"
        by simp
      show ?thesis unfolding new_id_def by (rule to_double_apart [OF bi bj sep])
    qed
    show ?thesis unfolding distinct_conv_nth
    proof (intro allI impI)
      fix i j
      assume i: "i < length ?ns" and j: "j < length ?ns" and "i \<noteq> j"
      then consider "j < i" | "i < j" by linarith
      then show "?ns ! i \<noteq> ?ns ! j"
      proof cases
        case 1
        with i j ne [of i j] show ?thesis by simp
      next
        case 2
        with i j ne [of j i] show ?thesis by simp
      qed
    qed
  qed
  show ?thesis
  proof (intro exI conjI impI)
    show "addQuests calls s = Inr (s', rev (rev ?rs))" using r(1) by simp
    show "quests s' = JArr (rev ?rs) ex" using r(2) by simp
    show "length (rev ?rs) = length calls" by simp
    show "rev ?rs = rev ?rs" by (rule refl)
    show "map (\<lambda>q. get_prop q ''id'') (rev ?rs) = rev (map (\<lambda>c. Inr (JNum (new_id (fst c)))) calls)"
      by (rule ids_rev)
    show "distinct (map (\<lambda>q. get_prop q ''id'') (rev ?rs))"
      if "(\<forall>c\<in>set calls. 2 ^ k \<le> drawn (fst c) \<and> drawn (fst c) < 2 ^ Suc k) \<and>
          (\<forall>i<length calls. \<forall>j<i.
             pow2 (int k - 52) < \<bar>drawn (fst (calls ! i)) - drawn (fst (calls ! j))\<bar>)"
      using that by (intro dist apart) simp_all
  qed
qed

text \<open>
  Two calls one millisecond apart, with the same draw: the sums \<open>1700000000000.5\<close> and
  \<open>1700000000001.5\<close> lie between \<open>2\<^sup>4\<^sup>0\<close> and \<open>2\<^sup>4\<^sup>1\<close> and are more than \<open>1/4096\<close> apart;
  two quests, distinct ids.
\<close>

theorem addQuests_from_empty_witness:
  "\<exists>s' qs. addQuests [(env0, JObj [(''title'', JStr ''a'')]), (env0\<lparr>dateNow := 1700000000001\<rparr>, JObj [(''title'', JStr ''b'')])]
              (defaults env0) = Inr (s', rev qs) \<and>
      quests s' = JArr qs [] \<and> length qs = 2 \<and> distinct (map (\<lambda>q. get_prop q ''id'') qs)"
proof -
  let ?calls = "[(env0, JObj [(''title'', JStr ''a'')]), (env0\<lparr>dateNow := 1700000000001\<rparr>, JObj [(''title'', JStr ''b'')])]"
  have h1: "quests (defaults env0) = JArr [] []" by (simp add: defaults_def)
  have h2: "\<forall>c\<in>set ?calls. is_object (snd c)" by simp
  have b: "\<forall>c\<in>set ?calls. 2 ^ 40 \<le> drawn (fst c) \<and> drawn (fst c) < 2 ^ Suc 40"
    by (simp add: drawn_def env0_def)
  have g: "pow2 (int 40 - 52) < \<bar>drawn (fst (?calls ! i)) - drawn (fst (?calls ! j))\<bar>"
    if "i < length ?calls" and "j < i" for i j
  proof -
    from that have "i = 1" "j = 0" by simp_all
    then show ?thesis by (simp add: drawn_def env0_def pow2_def)
  qed
  have h3: "(\<forall>c\<in>set ?calls. 2 ^ 40 \<le> drawn (fst c) \<and> drawn (fst c) < 2 ^ Suc 40) \<and>
            (\<forall>i<length ?calls. \<forall>j<i.
               pow2 (int 40 - 52) < \<bar>drawn (fst (?calls ! i)) - drawn (fst (?calls ! j))\<bar>)"
    using b g by (intro conjI allI impI)
  from addQuests_from_empty [OF h1 h2, of 40] obtain s' qs where
      r: "addQuests ?calls (defaults env0) = Inr (s', rev qs)" "quests s' = JArr qs []"
         "length qs = length ?calls"
         "(\<forall>c\<in>set ?calls. 2 ^ 40 \<le> drawn (fst c) \<and> drawn (fst c) < 2 ^ Suc 40) \<and>
          (\<forall>i<length ?calls. \<forall>j<i.
             pow2 (int 40 - 52) < \<bar>drawn (fst (?calls ! i)) - drawn (fst (?calls ! j))\<bar>) \<longrightarrow>
          distinct (map (\<lambda>q. get_prop q ''id'') qs)"
    by (elim exE conjE)
  show ?thesis
  proof (intro exI conjI)
    show "addQuests ?calls (defaults env0) = Inr (s', rev qs)" by (rule r(1))
    show "quests s' = JArr qs []" by (rule r(2))
    show "length qs = 2" using r(3) by simp
    show "distinct (map (\<lambda>q. get_prop q ''id'') qs)" using r(4) h3 by (rule mp)
  qed
qed

text \<open>
  Claim C1 as stated fails: two calls that read the same millisecond and draw the same
  random number store two quests with the same id (\<open>1700000000000.5\<close>, a sum that a
  double holds exactly).
\<close>

theorem addQuests_same_reading_same_id:
  "(case addQuests [(env0, JObj [(''title'', JStr ''a'')]), (env0, JObj [(''title'', JStr ''b'')])] (defaults env0) of
      Inl err \<Rightarrow> [] | Inr (s, rs) \<Rightarrow> map (\<lambda>q. get_prop q ''id'') rs) =
   [Inr (JNum (3400000000001 / 2)), Inr (JNum (3400000000001 / 2))]"
proof -
  have n: "new_id env0 = 3400000000001 / 2" by (rule new_id_env0)
  have q: "quests (defaults env0) = JArr [] []" by (simp add: defaults_def)
  have o: "\<forall>c\<in>set [(env0, JObj [(''title'', JStr ''a'')]), (env0, JObj [(''title'', JStr ''b'')])]. is_object (snd c)"
    by simp
  from addQuests_objects [OF o q] obtain s' where
    "addQuests [(env0, JObj [(''title'', JStr ''a'')]), (env0, JObj [(''title'', JStr ''b'')])] (defaults env0) =
       Inr (s', map (\<lambda>c. stamped (fst c) (snd c)) [(env0, JObj [(''title'', JStr ''a'')]), (env0, JObj [(''title'', JStr ''b'')])])"
    by (elim exE conjE)
  then show ?thesis by (simp add: stamped_id n)
qed

text \<open>
  Nor do distinct draws suffice: in one millisecond the draws \<open>1/2\<close> and
  \<open>1/2 + 2\<^sup>-\<^sup>2\<^sup>0\<close> give sums less than half a spacing apart, which round to the same
  double, and the two quests are stored under the one id \<open>1700000000000.5\<close>.
\<close>

lemma addQuests_close_draws_same_id:
  "(case addQuests [(env0, JObj [(''title'', JStr ''a'')]),
                    (env0\<lparr>mathRandom := 524289 / 1048576\<rparr>, JObj [(''title'', JStr ''b'')])] (defaults env0) of
      Inl err \<Rightarrow> [] | Inr (s, rs) \<Rightarrow> map (\<lambda>q. get_prop q ''id'') rs) =
   [Inr (JNum (3400000000001 / 2)), Inr (JNum (3400000000001 / 2))]"
proof -
  let ?calls = "[(env0, JObj [(''title'', JStr ''a'')]),
                 (env0\<lparr>mathRandom := 524289 / 1048576\<rparr>, JObj [(''title'', JStr ''b'')])]"
  have n: "new_id env0 = 3400000000001 / 2" by (rule new_id_env0)
  have m: "new_id (env0\<lparr>mathRandom := 524289 / 1048576\<rparr>) = 3400000000001 / 2"
    by (rule new_id_close_draw)
  have q: "quests (defaults env0) = JArr [] []" by (simp add: defaults_def)
  have o: "\<forall>c\<in>set ?calls. is_object (snd c)" by simp
  from addQuests_objects [OF o q] obtain s' where
    "addQuests ?calls (defaults env0) = Inr (s', map (\<lambda>c. stamped (fst c) (snd c)) ?calls)"
    by (elim exE conjE)
  then show ?thesis by (simp add: stamped_id n m)
qed

text \<open>
  Claim C6, as the code has it. For an object payload, \<^verbatim>\<open>addQuest\<close> stores at the
  head of the list a quest that carries the id and the creation time the store assigned
  and agrees with the payload on every other property (and, for an array payload, on the
  elements).
\<close>

theorem addQuest_copies_payload:
  assumes "is_object quest" and "quests s = JArr qs ex"
  shows "\<exists>s' q. addQuest e quest s = Inr (s', q) \<and> quests s' = JArr (q # qs) ex \<and>
           get_prop q ''id'' = Inr (JNum (new_id e)) \<and>
           get_prop q ''createdAt'' = Inr (JStr (toISOString e 0)) \<and>
           (\<forall>k. k \<noteq> ''id'' \<and> k \<noteq> ''createdAt'' \<longrightarrow> get_prop q k = get_prop quest k) \<and>
           (\<forall>xs ax. quest = JArr xs ax \<longrightarrow> (\<exists>ax'. q = JArr xs ax'))"
proof (intro exI conjI)
  show "addQuest e quest s = Inr (scheduleSave (s\<lparr>quests := JArr (stamped e quest # qs) ex\<rparr>), stamped e quest)"
    by (rule addQuest_stamped [OF assms])
  show "quests (scheduleSave (s\<lparr>quests := JArr (stamped e quest # qs) ex\<rparr>)) = JArr (stamped e quest # qs) ex"
    by (simp add: scheduleSave_def)
  show "get_prop (stamped e quest) ''id'' = Inr (JNum (new_id e))" by (rule stamped_id [OF assms(1)])
  show "get_prop (stamped e quest) ''createdAt'' = Inr (JStr (toISOString e 0))"
    by (rule stamped_createdAt [OF assms(1)])
  show "\<forall>k. k \<noteq> ''id'' \<and> k \<noteq> ''createdAt'' \<longrightarrow> get_prop (stamped e quest) k = get_prop quest k"
    using stamped_other [OF assms(1)] by blast
  show "\<forall>xs ax. quest = JArr xs ax \<longrightarrow> (\<exists>ax'. stamped e quest = JArr xs ax')"
    by (simp add: stamped_elems)
qed

text \<open>
  The payload of the specification's scenario keeps its title, user and status; an array
  payload keeps its elements.
\<close>

theorem addQuest_copies_payload_witness:
  "(\<exists>s' q. addQuest env0 (JObj [(''title'', JStr ''Fix sign''), (''user'', JStr ''alice''), (''status'', JStr ''open'')])
              (defaults env0) = Inr (s', q) \<and>
      quests s' = JArr [q] [] \<and>
      get_prop q ''title'' = Inr (JStr ''Fix sign'') \<and> get_prop q ''user'' = Inr (JStr ''alice'') \<and>
      get_prop q ''status'' = Inr (JStr ''open'')) \<and>
   (\<exists>s' ax. addQuest env0 (JArr [JStr ''Fix sign''] []) (defaults env0) = Inr (s', JArr [JStr ''Fix sign''] ax))"
proof -
  let ?p = "JObj [(''title'', JStr ''Fix sign''), (''user'', JStr ''alice''), (''status'', JStr ''open'')]"
  let ?a = "JArr [JStr ''Fix sign''] []"
  have h1: "is_object ?p" by simp
  have h2: "quests (defaults env0) = JArr [] []" by (simp add: defaults_def)
  from addQuest_copies_payload [OF h1 h2, of env0] obtain s' q where
      r: "addQuest env0 ?p (defaults env0) = Inr (s', q)" "quests s' = JArr [q] []"
         "\<forall>k. k \<noteq> ''id'' \<and> k \<noteq> ''createdAt'' \<longrightarrow> get_prop q k = get_prop ?p k"
    by (elim exE conjE)
  have t: "get_prop q ''title'' = get_prop ?p ''title''" using r(3) by simp
  have u: "get_prop q ''user'' = get_prop ?p ''user''" using r(3) by simp
  have st: "get_prop q ''status'' = get_prop ?p ''status''" using r(3) by simp
  have f1: "get_prop q ''title'' = Inr (JStr ''Fix sign'')" using t by (simp add: own_def)
  have f2: "get_prop q ''user'' = Inr (JStr ''alice'')" using u by (simp add: own_def)
  have f3: "get_prop q ''status'' = Inr (JStr ''open'')" using st by (simp add: own_def)
  from r(1) r(2) f1 f2 f3
  have obj: "\<exists>s' q. addQuest env0 ?p (defaults env0) = Inr (s', q) \<and>
      quests s' = JArr [q] [] \<and>
      get_prop q ''title'' = Inr (JStr ''Fix sign'') \<and> get_prop q ''user'' = Inr (JStr ''alice'') \<and>
      get_prop q ''status'' = Inr (JStr ''open'')"
    by (intro exI conjI)
  have h3: "is_object ?a" by simp
  from addQuest_copies_payload [OF h3 h2, of env0] obtain s2 q2 where
      r2: "addQuest env0 ?a (defaults env0) = Inr (s2, q2)"
          "\<forall>xs ax. ?a = JArr xs ax \<longrightarrow> (\<exists>ax'. q2 = JArr xs ax')"
    by (elim exE conjE)
  from r2(2) obtain ax where ax: "q2 = JArr [JStr ''Fix sign''] ax" by blast
  from r2(1) ax have "addQuest env0 ?a (defaults env0) = Inr (s2, JArr [JStr ''Fix sign''] ax)" by simp
  then have arr: "\<exists>s' ax. addQuest env0 ?a (defaults env0) = Inr (s', JArr [JStr ''Fix sign''] ax)"
    by (intro exI)
  from obj arr show ?thesis by (rule conjI)
qed

text \<open>
  Claim C6 as stated fails on a field the caller supplied: a payload with \<^verbatim>\<open>id: 7\<close>
  is stored with the id the store assigned.
\<close>

theorem addQuest_overwrites_supplied_id:
  "get_prop (JObj [(''id'', JNum 7), (''title'', JStr ''Fix sign'')]) ''id'' = Inr (JNum 7) \<and>
   (case addQuest env0 (JObj [(''id'', JNum 7), (''title'', JStr ''Fix sign'')]) (defaults env0) of
      Inl err \<Rightarrow> Inl err | Inr (s, q) \<Rightarrow> get_prop q ''id'') = Inr (JNum (3400000000001 / 2))"
proof -
  have n: "new_id env0 = 3400000000001 / 2" by (rule new_id_env0)
  have q: "quests (defaults env0) = JArr [] []" by (simp add: defaults_def)
  have o: "is_object (JObj [(''id'', JNum 7), (''title'', JStr ''Fix sign'')])" by simp
  show ?thesis
    by (simp add: addQuest_stamped [OF o q] stamped_id n own_def)
qed

subsection \<open>Updating and deleting quests\<close>

lemma get_prop_total: "\<not> is_nullish q \<Longrightarrow> \<exists>v. get_prop q k = Inr v"
  by (cases q) simp_all

lemma is_object_not_nullish: "is_object q \<Longrightarrow> \<not> is_nullish q"
  by (cases q) simp_all

lemma is_object_truthy: "is_object q \<Longrightarrow> truthy q"
  by (cases q) simp_all

lemma find_by_id_none:
  assumes "\<forall>q\<in>set qs. \<not> is_nullish q" and "\<forall>q\<in>set qs. \<not> id_matches q i"
  shows "find_by_id qs i = Inr None"
  using assms
proof (induction qs)
  case Nil
  then show ?case by simp
next
  case (Cons q qs)
  from Cons.prems(1) have "\<not> is_nullish q" by simp
  then obtain v where v: "get_prop q ''id'' = Inr v" using get_prop_total by blast
  from Cons.prems(2) have "\<not> id_matches q i" by simp
  with v have ne: "\<not> strict_eq v i" by (simp add: id_matches_def)
  from Cons have "find_by_id qs i = Inr None" by simp
  with v ne show ?case by simp
qed

lemma find_by_id_first:
  assumes "\<forall>p\<in>set pre. \<not> is_nullish p" and "\<forall>p\<in>set pre. \<not> id_matches p i" and "id_matches q i"
  shows "find_by_id (pre @ q # post) i = Inr (Some (length pre, q))"
  using assms
proof (induction pre)
  case Nil
  from Nil(3) obtain v where "get_prop q ''id'' = Inr v" "strict_eq v i"
    by (auto simp: id_matches_def split: sum.splits)
  then show ?case by simp
next
  case (Cons p pre)
  from Cons.prems(1) have "\<not> is_nullish p" by simp
  then obtain v where v: "get_prop p ''id'' = Inr v" using get_prop_total by blast
  from Cons.prems(2) have "\<not> id_matches p i" by simp
  with v have ne: "\<not> strict_eq v i" by (simp add: id_matches_def)
  from Cons have "find_by_id (pre @ q # post) i = Inr (Some (length pre, q))" by simp
  with v ne show ?case by simp
qed

lemma set_prop_assign:
  "is_object q \<Longrightarrow> set_prop (assign_props q us) k v = Inr (assign_props q (us @ [(k, v)]))"
  by (cases q) simp_all


lemma is_object_assign: "is_object q \<Longrightarrow> is_object (assign_props q us)"
  by (cases q) simp_all

lemma updateQuest_found:
  assumes "quests s = JArr (pre @ q # post) ex"
    and "\<forall>p\<in>set pre. \<not> is_nullish p" and "\<forall>p\<in>set pre. \<not> id_matches p i" and "id_matches q i"
    and "is_object q"
  shows "updateQuest e i us s =
           Inr (scheduleSave (s\<lparr>quests := JArr (pre @ assign_props q (us @ [(''updatedAt'', JStr (toISOString e 0))]) # post) ex\<rparr>),
                assign_props q (us @ [(''updatedAt'', JStr (toISOString e 0))]))"
proof -
  have f: "find_by_id (pre @ q # post) i = Inr (Some (length pre, q))"
    by (rule find_by_id_first [OF assms(2,3,4)])
  have t: "truthy q" by (rule is_object_truthy [OF assms(5)])
  have n: "\<not> is_nullish q" by (rule is_object_not_nullish [OF assms(5)])
  show ?thesis
    by (simp add: updateQuest_def assms(1) f t n object_assign_def set_prop_assign [OF assms(5)])
qed

lemma updateQuest_not_found:
  assumes "quests s = JArr qs ex" and "\<forall>q\<in>set qs. \<not> is_nullish q" and "\<forall>q\<in>set qs. \<not> id_matches q i"
  shows "updateQuest e i us s = Inr (s, JNull)"
  by (simp add: updateQuest_def assms(1) find_by_id_none [OF assms(2,3)])

lemma deleteQuest_found:
  assumes "quests s = JArr (pre @ q # post) ex"
    and "\<forall>p\<in>set pre. \<not> is_nullish p" and "\<forall>p\<in>set pre. \<not> id_matches p i" and "id_matches q i"
  shows "deleteQuest i s = Inr (scheduleSave (s\<lparr>quests := JArr (pre @ post) ex\<rparr>), q)"
  by (simp add: deleteQuest_def assms(1) find_by_id_first [OF assms(2,3,4)])

lemma deleteQuest_not_found:
  assumes "quests s = JArr qs ex" and "\<forall>q\<in>set qs. \<not> is_nullish q" and "\<forall>q\<in>set qs. \<not> id_matches q i"
  shows "deleteQuest i s = Inr (s, JNull)"
  by (simp add: deleteQuest_def assms(1) find_by_id_none [OF assms(2,3)])


text \<open>
  The stores that the operations build from an empty one hold objects only: a payload that
  is no object makes \<^verbatim>\<open>addQuest\<close> throw before anything is stored, and updating or
  deleting puts nothing else in. The statements below about a store with quests are about
  such stores.
\<close>

lemma set_prop_Inr_object: "set_prop p k v = Inr q \<Longrightarrow> is_object p \<and> is_object q"
  by (cases p) auto

lemma addQuest_keeps_objects:
  assumes "quests s = JArr qs ex" and "\<forall>q\<in>set qs. is_object q" and "addQuest e p s = Inr (s', r)"
  shows "\<exists>qs'. quests s' = JArr qs' ex \<and> (\<forall>q\<in>set qs'. is_object q)"
proof -
  have obj: "is_object p"
  proof (rule ccontr)
    assume "\<not> is_object p"
    then have "set_prop p ''id'' (JNum (new_id e)) = Inl TypeError" by (cases p) simp_all
    with assms(3) show False by (simp add: addQuest_def)
  qed
  from assms(3) have s': "s' = scheduleSave (s\<lparr>quests := JArr (stamped e p # qs) ex\<rparr>)"
    by (auto simp add: addQuest_stamped [OF obj assms(1)])
  have "is_object (stamped e p)" unfolding stamped_def by (rule is_object_assign [OF obj])
  with assms(2) have "\<forall>q\<in>set (stamped e p # qs). is_object q" by simp
  moreover have "quests s' = JArr (stamped e p # qs) ex" by (simp add: s' scheduleSave_def)
  ultimately show ?thesis by blast
qed

lemma updateQuest_keeps_objects:
  assumes "quests s = JArr qs ex" and "\<forall>q\<in>set qs. is_object q" and "updateQuest e i us s = Inr (s', r)"
  shows "\<exists>qs'. quests s' = JArr qs' ex \<and> (\<forall>q\<in>set qs'. is_object q)"
proof (cases "\<exists>q\<in>set qs. id_matches q i")
  case True
  then obtain pre q post where sp: "qs = pre @ q # post" "id_matches q i" "\<forall>p\<in>set pre. \<not> id_matches p i"
    using split_list_first_prop [of qs "\<lambda>q. id_matches q i"] by blast
  let ?q' = "assign_props q (us @ [(''updatedAt'', JStr (toISOString e 0))])"
  from assms(2) sp(1) have obj: "is_object q" by simp
  from assms(2) sp(1) have pre: "\<forall>p\<in>set pre. \<not> is_nullish p" by (simp add: is_object_not_nullish)
  from assms(1) sp(1) have q: "quests s = JArr (pre @ q # post) ex" by simp
  from assms(3) have s': "s' = scheduleSave (s\<lparr>quests := JArr (pre @ ?q' # post) ex\<rparr>)"
    by (auto simp add: updateQuest_found [OF q pre sp(3) sp(2) obj])
  have "is_object ?q'" by (rule is_object_assign [OF obj])
  with assms(2) sp(1) have "\<forall>x\<in>set (pre @ ?q' # post). is_object x" by simp
  moreover have "quests s' = JArr (pre @ ?q' # post) ex" by (simp add: s' scheduleSave_def)
  ultimately show ?thesis by blast
next
  case False
  from assms(2) have nn: "\<forall>q\<in>set qs. \<not> is_nullish q" by (simp add: is_object_not_nullish)
  from False have none: "\<forall>q\<in>set qs. \<not> id_matches q i" by simp
  from assms(3) have "s' = s" by (simp add: updateQuest_not_found [OF assms(1) nn none])
  with assms(1,2) show ?thesis by blast
qed

lemma deleteQuest_keeps_objects:
  assumes "quests s = JArr qs ex" and "\<forall>q\<in>set qs. is_object q" and "deleteQuest i s = Inr (s', r)"
  shows "\<exists>qs'. quests s' = JArr qs' ex \<and> (\<forall>q\<in>set qs'. is_object q)"
proof (cases "\<exists>q\<in>set qs. id_matches q i")
  case True
  then obtain pre q post where sp: "qs = pre @ q # post" "id_matches q i" "\<forall>p\<in>set pre. \<not> id_matches p i"
    using split_list_first_prop [of qs "\<lambda>q. id_matches q i"] by blast
  from assms(2) sp(1) have pre: "\<forall>p\<in>set pre. \<not> is_nullish p" by (simp add: is_object_not_nullish)
  from assms(1) sp(1) have q: "quests s = JArr (pre @ q # post) ex" by simp
  from assms(3) have s': "s' = scheduleSave (s\<lparr>quests := JArr (pre @ post) ex\<rparr>)"
    by (auto simp add: deleteQuest_found [OF q pre sp(3) sp(2)])
  from assms(2) sp(1) have "\<forall>x\<in>set (pre @ post). is_object x" by simp
  moreover have "quests s' = JArr (pre @ post) ex" by (simp add: s' scheduleSave_def)
  ultimately show ?thesis by blast
next
  case False
  from assms(2) have nn: "\<forall>q\<in>set qs. \<not> is_nullish q" by (simp add: is_object_not_nullish)
  from False have none: "\<forall>q\<in>set qs. \<not> id_matches q i" by simp
  from assms(3) have "s' = s" by (simp add: deleteQuest_not_found [OF assms(1) nn none])
  with assms(1,2) show ?thesis by blast
qed








subsection \<open>Categories\<close>

lemma strict_eq_eq: "strict_eq a b \<Longrightarrow> a = b"
  by (cases a; cases b) simp_all

lemma strict_eq_primitive: "\<not> is_object v \<Longrightarrow> strict_eq v v"
  by (cases v) simp_all

lemma array_includes_iff: "array_includes cs v \<longleftrightarrow> (\<exists>c\<in>set cs. strict_eq c v)"
  by (simp add: array_includes_def list_ex_iff)

lemma array_includes_primitive: "\<not> is_object v \<Longrightarrow> array_includes cs v \<longleftrightarrow> v \<in> set cs"
  using strict_eq_eq strict_eq_primitive by (auto simp add: array_includes_iff)

lemma index_of_Some: "index_of cs v = Some n \<Longrightarrow> n < length cs \<and> strict_eq (cs ! n) v"
proof (induction cs arbitrary: n)
  case Nil
  then show ?case by simp
next
  case (Cons c cs)
  show ?case
  proof (cases "strict_eq c v")
    case True
    with Cons.prems show ?thesis by simp
  next
    case False
    with Cons.prems obtain m where m: "index_of cs v = Some m" "n = Suc m"
      by (auto split: option.splits)
    from Cons.IH [OF m(1)] m(2) show ?thesis by simp
  qed
qed

lemma index_of_None: "index_of cs v = None \<longleftrightarrow> \<not> array_includes cs v"
  by (induction cs) (auto simp add: array_includes_iff split: option.splits)

lemma distinct_drop_middle: "distinct (xs @ ys @ zs) \<Longrightarrow> distinct (xs @ zs)"
  by auto

lemma distinct_filter_remove_nth:
  assumes "distinct (filter P cs)" and "n < length cs"
  shows "distinct (filter P (take n cs @ drop (Suc n) cs))"
proof -
  have "cs = take n cs @ [cs ! n] @ drop (Suc n) cs"
    using assms(2) by (simp add: id_take_nth_drop [symmetric])
  then have "filter P cs = filter P (take n cs) @ filter P [cs ! n] @ filter P (drop (Suc n) cs)"
    by (metis filter_append)
  with assms(1) have "distinct (filter P (take n cs) @ filter P [cs ! n] @ filter P (drop (Suc n) cs))"
    by simp
  then have "distinct (filter P (take n cs) @ filter P (drop (Suc n) cs))"
    by (rule distinct_drop_middle)
  then show ?thesis by simp
qed

lemma distinct_count_list_le_1: "distinct xs \<Longrightarrow> count_list xs x \<le> 1"
  by (induction xs) auto

lemma addCategory_array:
  assumes "customCategories s = JArr cs ex"
  shows "addCategory e name s =
           (if array_includes cs name then Inr (s, JNull)
            else Inr (s\<lparr>customCategories := JArr (cs @ [name]) ex, autoSaveTimeout := True\<rparr>, name))"
  by (simp add: addCategory_def assms scheduleSave_def)

lemma deleteCategory_array:
  assumes "customCategories s = JArr cs ex"
  shows "deleteCategory e name s =
           (case index_of cs name of
              None \<Rightarrow> Inr (s, JNull)
            | Some n \<Rightarrow> Inr (s\<lparr>customCategories := JArr (take n cs @ drop (Suc n) cs) ex, autoSaveTimeout := True\<rparr>, cs ! n))"
  by (simp add: deleteCategory_def assms scheduleSave_def split: option.splits)

lemma category_op_keeps_names_once:
  assumes "customCategories s = JArr cs ex" and "distinct (filter (\<lambda>c. \<not> is_object c) cs)"
  shows "\<exists>s1 r cs1. apply_category_op e c s = Inr (s1, r) \<and> customCategories s1 = JArr cs1 ex \<and>
           distinct (filter (\<lambda>c. \<not> is_object c) cs1)"
proof (cases c)
  case (AddCategory name)
  show ?thesis
  proof (cases "array_includes cs name")
    case True
    then have "apply_category_op e c s = Inr (s, JNull)"
      by (simp add: AddCategory addCategory_array [OF assms(1)])
    with assms show ?thesis by blast
  next
    case False
    let ?s1 = "s\<lparr>customCategories := JArr (cs @ [name]) ex, autoSaveTimeout := True\<rparr>"
    from False have run: "apply_category_op e c s = Inr (?s1, name)"
      by (simp add: AddCategory addCategory_array [OF assms(1)])
    have "distinct (filter (\<lambda>c. \<not> is_object c) (cs @ [name]))"
    proof (cases "is_object name")
      case True
      with assms(2) show ?thesis by simp
    next
      case prim: False
      with False have "name \<notin> set cs" by (simp add: array_includes_primitive)
      with assms(2) prim show ?thesis by simp
    qed
    moreover have "customCategories ?s1 = JArr (cs @ [name]) ex" by simp
    ultimately show ?thesis using run by blast
  qed
next
  case (DeleteCategory name)
  show ?thesis
  proof (cases "index_of cs name")
    case None
    then have "apply_category_op e c s = Inr (s, JNull)"
      by (simp add: DeleteCategory deleteCategory_array [OF assms(1)])
    with assms show ?thesis by blast
  next
    case (Some n)
    let ?s1 = "s\<lparr>customCategories := JArr (take n cs @ drop (Suc n) cs) ex, autoSaveTimeout := True\<rparr>"
    from Some have run: "apply_category_op e c s = Inr (?s1, cs ! n)"
      by (simp add: DeleteCategory deleteCategory_array [OF assms(1)])
    from index_of_Some [OF Some] have "n < length cs" by simp
    then have "distinct (filter (\<lambda>c. \<not> is_object c) (take n cs @ drop (Suc n) cs))"
      by (rule distinct_filter_remove_nth [OF assms(2)])
    moreover have "customCategories ?s1 = JArr (take n cs @ drop (Suc n) cs) ex" by simp
    ultimately show ?thesis using run by blast
  qed
qed

lemma category_ops_keep_names_once:
  assumes "customCategories s = JArr cs ex" and "distinct (filter (\<lambda>c. \<not> is_object c) cs)"
  shows "\<exists>s' cs'. category_ops e ops s = Inr s' \<and> customCategories s' = JArr cs' ex \<and>
           distinct (filter (\<lambda>c. \<not> is_object c) cs')"
  using assms
proof (induction ops arbitrary: s cs)
  case Nil
  then show ?case by simp
next
  case (Cons c ops)
  from category_op_keeps_names_once [OF Cons.prems, of e c] obtain s1 r cs1 where
      st: "apply_category_op e c s = Inr (s1, r)" "customCategories s1 = JArr cs1 ex"
          "distinct (filter (\<lambda>c. \<not> is_object c) cs1)"
    by (elim exE conjE)
  from Cons.IH [OF st(2,3)] obtain s' cs' where
      r: "category_ops e ops s1 = Inr s'" "customCategories s' = JArr cs' ex"
         "distinct (filter (\<lambda>c. \<not> is_object c) cs')"
    by (elim exE conjE)
  have "category_ops e (c # ops) s = Inr s'" by (simp add: st(1) r(1))
  with r(2,3) show ?case by (intro exI conjI)
qed

text \<open>
  Claim C7. \<^verbatim>\<open>addCategory(name)\<close> with a name that is in the category list (the very
  string) returns \<^verbatim>\<open>null\<close> and leaves the store as it is; with a name that is not, it
  appends the name. After any sequence of \<^verbatim>\<open>addCategory\<close> and \<^verbatim>\<open>deleteCategory\<close>
  calls on the five seeded categories, whatever the arguments, no call has thrown and no
  name occurs twice in the list.
\<close>

theorem addCategory_keeps_names_unique:
  "(customCategories s = JArr cs ex \<and> JStr name \<in> set cs \<longrightarrow>
      addCategory e (JStr name) s = Inr (s, JNull)) \<and>
   (customCategories s = JArr cs ex \<and> JStr name \<notin> set cs \<longrightarrow>
      addCategory e (JStr name) s =
        Inr (s\<lparr>customCategories := JArr (cs @ [JStr name]) ex, autoSaveTimeout := True\<rparr>, JStr name)) \<and>
   (\<exists>s' cs'. category_ops e ops (defaults e') = Inr s' \<and> customCategories s' = JArr cs' [] \<and>
      distinct (filter (\<lambda>c. \<not> is_object c) cs') \<and> (\<forall>n. count_list cs' (JStr n) \<le> 1))"
proof (intro conjI impI)
  assume a: "customCategories s = JArr cs ex \<and> JStr name \<in> set cs"
  then have "array_includes cs (JStr name)" by (simp add: array_includes_primitive)
  with a show "addCategory e (JStr name) s = Inr (s, JNull)"
    by (simp add: addCategory_array)
next
  assume a: "customCategories s = JArr cs ex \<and> JStr name \<notin> set cs"
  then have "\<not> array_includes cs (JStr name)" by (simp add: array_includes_primitive)
  with a show "addCategory e (JStr name) s =
        Inr (s\<lparr>customCategories := JArr (cs @ [JStr name]) ex, autoSaveTimeout := True\<rparr>, JStr name)"
    by (simp add: addCategory_array)
next
  have c: "customCategories (defaults e') =
             JArr [JStr ''design'', JStr ''programming'', JStr ''marketing'', JStr ''writing'', JStr ''other''] []"
    by (simp add: defaults_def)
  have d: "distinct (filter (\<lambda>c. \<not> is_object c)
             [JStr ''design'', JStr ''programming'', JStr ''marketing'', JStr ''writing'', JStr ''other''])"
    by simp
  from category_ops_keep_names_once [OF c d, of e ops] obtain s' cs' where
      r: "category_ops e ops (defaults e') = Inr s'" "customCategories s' = JArr cs' []"
         "distinct (filter (\<lambda>c. \<not> is_object c) cs')"
    by (elim exE conjE)
  have "count_list cs' (JStr n) \<le> 1" for n
  proof -
    have "count_list (filter (\<lambda>c. \<not> is_object c) cs') (JStr n) \<le> 1"
      using r(3) by (rule distinct_count_list_le_1)
    moreover have "count_list (filter (\<lambda>c. \<not> is_object c) cs') (JStr n) = count_list cs' (JStr n)"
      by (induction cs') auto
    ultimately show ?thesis by simp
  qed
  then have "\<forall>n. count_list cs' (JStr n) \<le> 1" by blast
  with r show "\<exists>s' cs'. category_ops e ops (defaults e') = Inr s' \<and> customCategories s' = JArr cs' [] \<and>
      distinct (filter (\<lambda>c. \<not> is_object c) cs') \<and> (\<forall>n. count_list cs' (JStr n) \<le> 1)"
    by (intro exI conjI)
qed

text \<open>On the seeded categories: \<^verbatim>\<open>design\<close> is refused, \<^verbatim>\<open>urgent\<close> is appended.\<close>

theorem addCategory_keeps_names_unique_witness:
  "addCategory env0 (JStr ''design'') (defaults env0) = Inr (defaults env0, JNull) \<and>
   addCategory env0 (JStr ''urgent'') (defaults env0) =
     Inr ((defaults env0)\<lparr>customCategories :=
            JArr [JStr ''design'', JStr ''programming'', JStr ''marketing'', JStr ''writing'', JStr ''other'',
                  JStr ''urgent''] [], autoSaveTimeout := True\<rparr>, JStr ''urgent'')"
proof -
  let ?cs = "[JStr ''design'', JStr ''programming'', JStr ''marketing'', JStr ''writing'', JStr ''other'']"
  have c: "customCategories (defaults env0) = JArr ?cs []" by (simp add: defaults_def)
  have p: "JStr ''design'' \<in> set ?cs" by simp
  have a: "JStr ''urgent'' \<notin> set ?cs" by simp
  note T1 = addCategory_keeps_names_unique [of "defaults env0" ?cs "[]" "''design''" env0 "[]" env0]
  note T2 = addCategory_keeps_names_unique [of "defaults env0" ?cs "[]" "''urgent''" env0 "[]" env0]
  from T1 [THEN conjunct1] c p have r1: "addCategory env0 (JStr ''design'') (defaults env0) = Inr (defaults env0, JNull)"
    by simp
  from T2 [THEN conjunct2, THEN conjunct1] c a
  have r2: "addCategory env0 (JStr ''urgent'') (defaults env0) =
     Inr ((defaults env0)\<lparr>customCategories := JArr (?cs @ [JStr ''urgent'']) [], autoSaveTimeout := True\<rparr>, JStr ''urgent'')"
    by simp
  from r1 r2 show ?thesis by simp
qed

subsection \<open>Statistics\<close>

lemma get_prop_field: "\<not> is_nullish q \<Longrightarrow> get_prop q k = Inr (field q k)"
  by (cases q) (simp_all add: field_def)














subsection \<open>Loading the durability file\<close>

lemma get_prop_nullish: "is_nullish v \<Longrightarrow> get_prop v k = Inl TypeError"
  by (cases v) simp_all

lemma field_nullish: "is_nullish v \<Longrightarrow> field v k = JUndefined"
  by (simp add: field_def get_prop_nullish)

lemma js_or_undefined: "js_or JUndefined b = b"
  by (simp add: js_or_def)

lemma js_or_truthy: "truthy a \<Longrightarrow> js_or a b = a"
  by (simp add: js_or_def)

lemma loadData_null: "is_nullish doc \<Longrightarrow> loadData e s (Document doc) = (s, [LogLoadError])"
  by (simp add: loadData_def get_prop_nullish)

lemma loadData_document:
  assumes "\<not> is_nullish doc"
  shows "fst (loadData e s (Document doc)) =
           s\<lparr>quests := js_or (field doc ''quests'') (JArr [] []),
             markers := js_or (field doc ''markers'') (JArr [] []),
             customCategories := js_or (field doc ''customCategories'') (customCategories s),
             analytics := js_or (field doc ''analytics'') (analytics s)\<rparr>"
  by (simp add: loadData_def get_prop_field [OF assms] Let_def split: sum.splits)

lemma DataStore_fields:
  "quests (fst (DataStore e d)) = quests (fst (loadData e (defaults e) d))"
  "markers (fst (DataStore e d)) = markers (fst (loadData e (defaults e) d))"
  "customCategories (fst (DataStore e d)) = customCategories (fst (loadData e (defaults e) d))"
  "analytics (fst (DataStore e d)) = analytics (fst (loadData e (defaults e) d))"
  by (simp_all add: DataStore_def split: prod.splits)

lemma load_absent:
  assumes "field doc k = JUndefined"
  shows "k = ''quests'' \<Longrightarrow> quests (fst (loadData e (defaults e) (Document doc))) = quests (defaults e)"
    and "k = ''markers'' \<Longrightarrow> markers (fst (loadData e (defaults e) (Document doc))) = markers (defaults e)"
    and "k = ''customCategories'' \<Longrightarrow>
           customCategories (fst (loadData e (defaults e) (Document doc))) = customCategories (defaults e)"
    and "k = ''analytics'' \<Longrightarrow> analytics (fst (loadData e (defaults e) (Document doc))) = analytics (defaults e)"
proof -
  show "k = ''quests'' \<Longrightarrow> quests (fst (loadData e (defaults e) (Document doc))) = quests (defaults e)"
    using assms by (cases "is_nullish doc") (simp_all add: loadData_null loadData_document js_or_undefined defaults_def)
  show "k = ''markers'' \<Longrightarrow> markers (fst (loadData e (defaults e) (Document doc))) = markers (defaults e)"
    using assms by (cases "is_nullish doc") (simp_all add: loadData_null loadData_document js_or_undefined defaults_def)
  show "k = ''customCategories'' \<Longrightarrow>
           customCategories (fst (loadData e (defaults e) (Document doc))) = customCategories (defaults e)"
    using assms by (cases "is_nullish doc") (simp_all add: loadData_null loadData_document js_or_undefined)
  show "k = ''analytics'' \<Longrightarrow> analytics (fst (loadData e (defaults e) (Document doc))) = analytics (defaults e)"
    using assms by (cases "is_nullish doc") (simp_all add: loadData_null loadData_document js_or_undefined)
qed

text \<open>
  Claim C10. Constructing the store on a file that does not parse (or cannot be read) logs
  the error and leaves every default in place; on a file that parses, each of the keys
  \<^verbatim>\<open>quests\<close>, \<^verbatim>\<open>markers\<close>, \<^verbatim>\<open>customCategories\<close>, \<^verbatim>\<open>analytics\<close> that the
  document does not have is left at its default; and the store built depends on those four
  keys only: two documents that agree on them give the same store, whatever else they hold.
\<close>

theorem loadData_tolerant:
  "DataStore e Malformed = (defaults e, [LogLoadError]) \<and>
   DataStore e Unreadable = (defaults e, [LogLoadError]) \<and>
   DataStore e NoFile = (defaults e, []) \<and>
   (field doc ''quests'' = JUndefined \<longrightarrow> quests (fst (DataStore e (Document doc))) = quests (defaults e)) \<and>
   (field doc ''markers'' = JUndefined \<longrightarrow> markers (fst (DataStore e (Document doc))) = markers (defaults e)) \<and>
   (field doc ''customCategories'' = JUndefined \<longrightarrow>
      customCategories (fst (DataStore e (Document doc))) = customCategories (defaults e)) \<and>
   (field doc ''analytics'' = JUndefined \<longrightarrow>
      analytics (fst (DataStore e (Document doc))) = analytics (defaults e)) \<and>
   (get_prop doc ''quests'' = get_prop doc' ''quests'' \<and>
    get_prop doc ''markers'' = get_prop doc' ''markers'' \<and>
    get_prop doc ''customCategories'' = get_prop doc' ''customCategories'' \<and>
    get_prop doc ''analytics'' = get_prop doc' ''analytics'' \<longrightarrow>
      DataStore e (Document doc) = DataStore e (Document doc'))"
proof (intro conjI impI)
  show "DataStore e Malformed = (defaults e, [LogLoadError])"
    by (simp add: DataStore_def loadData_def defaults_def)
  show "DataStore e Unreadable = (defaults e, [LogLoadError])"
    by (simp add: DataStore_def loadData_def defaults_def)
  show "DataStore e NoFile = (defaults e, [])"
    by (simp add: DataStore_def loadData_def defaults_def)
  show "quests (fst (DataStore e (Document doc))) = quests (defaults e)" if "field doc ''quests'' = JUndefined"
    using load_absent(1) [OF that] by (simp only: DataStore_fields)
  show "markers (fst (DataStore e (Document doc))) = markers (defaults e)" if "field doc ''markers'' = JUndefined"
    using load_absent(2) [OF that] by (simp only: DataStore_fields)
  show "customCategories (fst (DataStore e (Document doc))) = customCategories (defaults e)"
    if "field doc ''customCategories'' = JUndefined"
    using load_absent(3) [OF that] by (simp only: DataStore_fields)
  show "analytics (fst (DataStore e (Document doc))) = analytics (defaults e)"
    if "field doc ''analytics'' = JUndefined"
    using load_absent(4) [OF that] by (simp only: DataStore_fields)
  show "DataStore e (Document doc) = DataStore e (Document doc')"
    if "get_prop doc ''quests'' = get_prop doc' ''quests'' \<and>
        get_prop doc ''markers'' = get_prop doc' ''markers'' \<and>
        get_prop doc ''customCategories'' = get_prop doc' ''customCategories'' \<and>
        get_prop doc ''analytics'' = get_prop doc' ''analytics''"
  proof -
    from that have eq: "get_prop doc ''quests'' = get_prop doc' ''quests''"
        "get_prop doc ''markers'' = get_prop doc' ''markers''"
        "get_prop doc ''customCategories'' = get_prop doc' ''customCategories''"
        "get_prop doc ''analytics'' = get_prop doc' ''analytics''"
      by simp_all
    have "loadData e (defaults e) (Document doc) = loadData e (defaults e) (Document doc')"
      unfolding loadData_def disk.case eq by (rule refl)
    then show ?thesis by (simp add: DataStore_def)
  qed
qed

text \<open>
  A file with \<^verbatim>\<open>quests\<close> and an unknown key \<^verbatim>\<open>theme\<close>: markers, categories and
  analytics are the defaults, and the unknown key changes nothing. A file holding
  \<^verbatim>\<open>null\<close> leaves the quests empty.
\<close>

theorem loadData_tolerant_witness:
  "markers (fst (DataStore env0 (Document (JObj [(''quests'', JArr [quest1] []), (''theme'', JStr ''dark'')])))) =
     JArr [] [] \<and>
   customCategories (fst (DataStore env0 (Document (JObj [(''quests'', JArr [quest1] []), (''theme'', JStr ''dark'')])))) =
     JArr [JStr ''design'', JStr ''programming'', JStr ''marketing'', JStr ''writing'', JStr ''other''] [] \<and>
   analytics (fst (DataStore env0 (Document (JObj [(''quests'', JArr [quest1] []), (''theme'', JStr ''dark'')])))) =
     JObj [(''totalConnections'', JNum 0), (''lastUpdated'', JStr ''2023-11-14T22:13:20.000Z'')] \<and>
   quests (fst (DataStore env0 (Document JNull))) = JArr [] [] \<and>
   DataStore env0 (Document (JObj [(''quests'', JArr [quest1] []), (''theme'', JStr ''dark'')])) =
     DataStore env0 (Document (JObj [(''quests'', JArr [quest1] [])]))"
proof -
  let ?doc = "JObj [(''quests'', JArr [quest1] []), (''theme'', JStr ''dark'')]"
  let ?doc' = "JObj [(''quests'', JArr [quest1] [])]"
  note T = loadData_tolerant [of env0 ?doc ?doc']
  note N = loadData_tolerant [of env0 JNull JNull]
  have m: "field ?doc ''markers'' = JUndefined" by (simp add: field_def own_def)
  have c: "field ?doc ''customCategories'' = JUndefined" by (simp add: field_def own_def)
  have a: "field ?doc ''analytics'' = JUndefined" by (simp add: field_def own_def)
  have n: "field JNull ''quests'' = JUndefined" by (simp add: field_def)
  have same: "get_prop ?doc ''quests'' = get_prop ?doc' ''quests'' \<and>
    get_prop ?doc ''markers'' = get_prop ?doc' ''markers'' \<and>
    get_prop ?doc ''customCategories'' = get_prop ?doc' ''customCategories'' \<and>
    get_prop ?doc ''analytics'' = get_prop ?doc' ''analytics''"
    by (simp add: own_def)
  from T m have r1: "markers (fst (DataStore env0 (Document ?doc))) = markers (defaults env0)" by blast
  from T c have r2: "customCategories (fst (DataStore env0 (Document ?doc))) = customCategories (defaults env0)"
    by blast
  from T a have r3: "analytics (fst (DataStore env0 (Document ?doc))) = analytics (defaults env0)" by blast
  from N n have r4: "quests (fst (DataStore env0 (Document JNull))) = quests (defaults env0)" by blast
  from T same have r5: "DataStore env0 (Document ?doc) = DataStore env0 (Document ?doc')" by blast
  have d: "markers (defaults env0) = JArr [] []"
      "customCategories (defaults env0) =
         JArr [JStr ''design'', JStr ''programming'', JStr ''marketing'', JStr ''writing'', JStr ''other''] []"
      "analytics (defaults env0) =
         JObj [(''totalConnections'', JNum 0), (''lastUpdated'', JStr ''2023-11-14T22:13:20.000Z'')]"
      "quests (defaults env0) = JArr [] []"
    by (simp_all add: defaults_def env0_def)
  from r1 r2 r3 r4 r5 show ?thesis by (simp only: d)
qed

subsection \<open>Saving and reloading\<close>

lemma to_json_fixes_json:
  "(is_json v \<longrightarrow> to_json v = Some v)"
  "(all_json xs \<longrightarrow> to_json_elems xs = xs)"
  "(props_json ps \<longrightarrow> to_json_props ps = ps)"
  by (induction v and xs and ps rule: is_json_all_json_props_json.induct) simp_all

lemma to_json_object: "is_object a \<Longrightarrow> \<exists>j. to_json a = Some j \<and> is_object j"
  by (cases a) simp_all

lemma truthy_not_undefined: "truthy v \<Longrightarrow> v \<noteq> JUndefined"
  by (cases v) simp_all

lemma set_prop_object_ex: "is_object p \<Longrightarrow> \<exists>q. set_prop p k v = Inr q \<and> is_object q"
  by (cases p) simp_all

lemma saveData_document:
  assumes "is_json (quests s)" and "is_json (markers s)" and "is_json (customCategories s)"
    and "is_object (analytics s)" and "writeFileOk e"
  shows "\<exists>j. fst (snd (saveData e s d)) =
           Document (JObj [(''quests'', quests s), (''markers'', markers s),
                           (''customCategories'', customCategories s), (''analytics'', j)])"
proof -
  from set_prop_object_ex assms(4) obtain a where a: "set_prop (analytics s) ''lastUpdated'' (JStr (toISOString e 0)) = Inr a" "is_object a"
    by blast
  from to_json_object [OF a(2)] obtain j where j: "to_json a = Some j" by blast
  have "fst (snd (saveData e s d)) =
           Document (JObj [(''quests'', quests s), (''markers'', markers s),
                           (''customCategories'', customCategories s), (''analytics'', j)])"
    using assms(1,2,3,5) by (simp add: saveData_def a(1) j to_json_fixes_json)
  then show ?thesis by blast
qed


lemma load_saved_document:
  assumes "truthy q" and "truthy m" and "truthy c"
  shows "getAllData (fst (DataStore e (Document (JObj [(''quests'', q), (''markers'', m),
                           (''customCategories'', c), (''analytics'', j)])))) =
         JObj [(''quests'', q), (''markers'', m), (''customCategories'', c)]"
proof -
  let ?doc = "JObj [(''quests'', q), (''markers'', m), (''customCategories'', c), (''analytics'', j)]"
  have n: "\<not> is_nullish ?doc" by simp
  have f: "field ?doc ''quests'' = q" "field ?doc ''markers'' = m" "field ?doc ''customCategories'' = c"
    by (simp_all add: field_def own_def)
  show ?thesis
    unfolding getAllData_def DataStore_fields loadData_document [OF n] f
    by (simp add: js_or_truthy assms)
qed

text \<open>
  Claim C2, as the code has it. When the quests, the markers and the categories of a store
  are JSON values (and truthy, as arrays are), the analytics an object and the write
  succeeds, \<^verbatim>\<open>saveData\<close> followed by the construction of a fresh store on the file
  written gives the same \<^verbatim>\<open>getAllData()\<close> snapshot.
\<close>

theorem save_then_load_roundtrip:
  assumes "is_json (quests s)" and "truthy (quests s)"
    and "is_json (markers s)" and "truthy (markers s)"
    and "is_json (customCategories s)" and "truthy (customCategories s)"
    and "is_object (analytics s)" and "writeFileOk e"
  shows "getAllData (fst (DataStore e' (fst (snd (saveData e s d))))) = getAllData s"
proof -
  from saveData_document [OF assms(1,3,5,7,8), of d] obtain j where
    j: "fst (snd (saveData e s d)) =
           Document (JObj [(''quests'', quests s), (''markers'', markers s),
                           (''customCategories'', customCategories s), (''analytics'', j)])"
    by blast
  show ?thesis
    unfolding j load_saved_document [OF assms(2,4,6)] by (simp add: getAllData_def)
qed

text \<open>The store with the one quest is such a store; its snapshot survives the round trip.\<close>

theorem save_then_load_roundtrip_witness:
  "getAllData (fst (DataStore env0 (fst (snd (saveData env0 store1 NoFile))))) = getAllData store1 \<and>
   getAllData store1 =
     JObj [(''quests'', JArr [quest1] []), (''markers'', JArr [] []),
           (''customCategories'',
              JArr [JStr ''design'', JStr ''programming'', JStr ''marketing'', JStr ''writing'', JStr ''other''] [])]"
proof -
  have h1: "is_json (quests store1)" by (simp add: store1_def quest1_def)
  have h2: "truthy (quests store1)" by (simp add: store1_def)
  have h3: "is_json (markers store1)" by (simp add: store1_def defaults_def)
  have h4: "truthy (markers store1)" by (simp add: store1_def defaults_def)
  have h5: "is_json (customCategories store1)" by (simp add: store1_def defaults_def)
  have h6: "truthy (customCategories store1)" by (simp add: store1_def defaults_def)
  have h7: "is_object (analytics store1)" by (simp add: store1_def defaults_def)
  have h8: "writeFileOk env0" by (simp add: env0_def)
  have a: "getAllData (fst (DataStore env0 (fst (snd (saveData env0 store1 NoFile))))) = getAllData store1"
    by (rule save_then_load_roundtrip [OF h1 h2 h3 h4 h5 h6 h7 h8])
  have b: "getAllData store1 =
     JObj [(''quests'', JArr [quest1] []), (''markers'', JArr [] []),
           (''customCategories'',
              JArr [JStr ''design'', JStr ''programming'', JStr ''marketing'', JStr ''writing'', JStr ''other''] [])]"
    by (simp add: getAllData_def store1_def defaults_def)
  from a b show ?thesis by (rule conjI)
qed

text \<open>
  Claim C2 as stated fails on a store that holds a value JSON text cannot denote. A client
  that sends \<^verbatim>\<open>addQuest\<close> with the payload \<^verbatim>\<open>[]\<close> has it stored as an array carrying
  the properties \<^verbatim>\<open>id\<close> and \<^verbatim>\<open>createdAt\<close>; \<^verbatim>\<open>JSON.stringify\<close> writes the elements of
  an array only, so after the reload the quest is \<^verbatim>\<open>[]\<close> with no id. (A property set
  to \<^verbatim>\<open>undefined\<close>, as \<^verbatim>\<open>updateQuest\<close> without a status leaves it, and an
  \<^verbatim>\<open>undefined\<close> category are lost or turned to \<^verbatim>\<open>null\<close> in the same way.)
\<close>

theorem array_quest_loses_id_on_reload:
  "and_then (addQuest env0 (JArr [] []) (fst (DataStore env0 NoFile)))
     (\<lambda>(s, q). Inr (field (getAllData s) ''quests'',
                     field (getAllData (fst (DataStore env0 (fst (snd (saveData env0 s NoFile)))))) ''quests'')) =
   Inr (JArr [JArr [] [(''id'', JNum (3400000000001 / 2)), (''createdAt'', JStr ''2023-11-14T22:13:20.000Z'')]] [],
        JArr [JArr [] []] [])"
proof -
  let ?q = "JArr [] [(''id'', JNum (3400000000001 / 2)), (''createdAt'', JStr ''2023-11-14T22:13:20.000Z'')]"
  let ?s = "(defaults env0)\<lparr>quests := JArr [?q] [], autoSaveTimeout := True\<rparr>"
  have n: "new_id env0 = 3400000000001 / 2" by (rule new_id_env0)
  have t: "toISOString env0 0 = ''2023-11-14T22:13:20.000Z''" by (simp add: env0_def)
  have w: "writeFileOk env0" by (simp add: env0_def)
  have fresh: "fst (DataStore env0 NoFile) = defaults env0"
    by (simp add: DataStore_def loadData_def defaults_def)
  have q0: "quests (defaults env0) = JArr [] []" by (simp add: defaults_def)
  have st: "stamped env0 (JArr [] []) = ?q" by (simp add: stamped_def n t)
  have add: "addQuest env0 (JArr [] []) (defaults env0) = Inr (?s, ?q)"
    using addQuest_stamped [of "JArr [] []" "defaults env0" "[]" "[]" env0] q0
    by (simp add: st scheduleSave_def)
  have before: "field (getAllData ?s) ''quests'' = JArr [?q] []"
    by (simp add: getAllData_def field_def own_def)
  have saved: "fst (snd (saveData env0 ?s NoFile)) =
      Document (JObj [(''quests'', JArr [JArr [] []] []), (''markers'', JArr [] []),
        (''customCategories'',
           JArr [JStr ''design'', JStr ''programming'', JStr ''marketing'', JStr ''writing'', JStr ''other''] []),
        (''analytics'', JObj [(''totalConnections'', JNum 0), (''lastUpdated'', JStr ''2023-11-14T22:13:20.000Z'')])])"
    by (simp add: saveData_def defaults_def w t)
  have after: "field (getAllData (fst (DataStore env0 (fst (snd (saveData env0 ?s NoFile)))))) ''quests'' =
      JArr [JArr [] []] []"
    unfolding saved by (simp add: load_saved_document field_def own_def)
  show ?thesis
    by (simp only: fresh add and_then_simps prod.case before after)
qed

subsection \<open>The \<^verbatim>\<open>addQuest\<close> message\<close>

lemma notify_admins_printable:
  assumes "and_then (get_prop q ''title'') (to_string (numberToString e)) = Inr title"
  shows "snd (notify_admins e q admins k) = None"
    and "\<forall>x\<in>set (fst (notify_admins e q admins k)).
           \<exists>a\<in>set admins. \<exists>ps. x = (Room a, ''adminNotification'', JObj ps) \<and>
             map_of ps ''type'' = Some (JStr ''quest_added'')"
    and "\<forall>a\<in>set admins. \<exists>v. (Room a, ''adminNotification'', v) \<in> set (fst (notify_admins e q admins k))"
proof -
  show "snd (notify_admins e q admins k) = None"
  proof (induction admins arbitrary: k)
    case Nil
    then show ?case by simp
  next
    case (Cons a admins)
    obtain ems r where n: "notify_admins e q admins (Suc k) = (ems, r)" by (cases "notify_admins e q admins (Suc k)")
    from Cons [of "Suc k"] n have "r = None" by simp
    then show ?case by (simp add: assms n)
  qed
  show "\<forall>x\<in>set (fst (notify_admins e q admins k)).
           \<exists>a\<in>set admins. \<exists>ps. x = (Room a, ''adminNotification'', JObj ps) \<and>
             map_of ps ''type'' = Some (JStr ''quest_added'')"
  proof (induction admins arbitrary: k)
    case Nil
    then show ?case by simp
  next
    case (Cons a admins)
    obtain ems r where n: "notify_admins e q admins (Suc k) = (ems, r)" by (cases "notify_admins e q admins (Suc k)")
    from Cons [of "Suc k"] n have ih: "\<forall>x\<in>set ems.
           \<exists>a\<in>set admins. \<exists>ps. x = (Room a, ''adminNotification'', JObj ps) \<and>
             map_of ps ''type'' = Some (JStr ''quest_added'')"
      by simp
    show ?case
      using ih by (auto simp add: assms n)
  qed
  show "\<forall>a\<in>set admins. \<exists>v. (Room a, ''adminNotification'', v) \<in> set (fst (notify_admins e q admins k))"
  proof (induction admins arbitrary: k)
    case Nil
    then show ?case by simp
  next
    case (Cons a admins)
    obtain ems r where n: "notify_admins e q admins (Suc k) = (ems, r)" by (cases "notify_admins e q admins (Suc k)")
    from Cons [of "Suc k"] n have ih: "\<forall>a\<in>set admins. \<exists>v. (Room a, ''adminNotification'', v) \<in> set ems"
      by simp
    show ?case
      using ih by (auto simp add: assms n)
  qed
qed

lemma inbox_mem:
  "(ev, w) \<in> set (inbox g c ems) \<longleftrightarrow> (\<exists>t v. (t, ev, v) \<in> set ems \<and> delivered g c t \<and> w = wire v)"
  by (force simp add: inbox_def)

lemma to_json_props_lookup:
  "map_of ps k = Some v \<Longrightarrow> to_json v = Some j \<Longrightarrow> map_of (to_json_props ps) k = Some j"
  by (induction ps) (auto split: option.splits if_splits)

lemma wire_object_prop:
  assumes "map_of ps k = Some v" and "to_json v = Some j"
  shows "get_prop (wire (JObj ps)) k = Inr j"
  by (simp add: wire_def own_def to_json_props_lookup [OF assms])


lemma stamped_JObj:
  "stamped e (JObj ps) =
     JObj (AList.update ''createdAt'' (JStr (toISOString e 0)) (AList.update ''id'' (JNum (new_id e)) ps))"
  by (simp add: stamped_def)

text \<open>
  Claim C4, as the code has it. When a client sends \<^verbatim>\<open>addQuest\<close> with a plain object
  whose title can be printed (a string, a number, nothing at all, or an object without a
  \<^verbatim>\<open>toString\<close> property of its own), the quest is stored, every connected client
  receives \<^verbatim>\<open>questAdded\<close> carrying the quest with its id and creation time, and a
  connected client receives an \<^verbatim>\<open>adminNotification\<close> exactly when it is in the admin
  set; every such notification has the type \<^verbatim>\<open>quest_added\<close>.
\<close>

theorem addQuest_broadcast:
  assumes "quests (dataStore g) = JArr qs ex"
    and "questData = JObj ps"
    and "to_string (numberToString e) (own ps ''title'') = Inr title"
  shows "\<exists>g' ems q. on_addQuest e sid questData g = Handled g' ems \<and>
           connectedUsers g' = connectedUsers g \<and> adminSockets g' = adminSockets g \<and>
           quests (dataStore g') = JArr (q # qs) ex \<and>
           get_prop (wire q) ''id'' = Inr (JNum (new_id e)) \<and>
           get_prop (wire q) ''createdAt'' = Inr (JStr (toISOString e 0)) \<and>
           (\<forall>c\<in>set (map fst (connectedUsers g)).
              (''questAdded'', wire q) \<in> set (inbox g c ems) \<and>
              ((\<exists>v. (''adminNotification'', v) \<in> set (inbox g c ems)) \<longleftrightarrow> c \<in> set (adminSockets g)) \<and>
              (\<forall>v. (''adminNotification'', v) \<in> set (inbox g c ems) \<longrightarrow>
                   get_prop v ''type'' = Inr (JStr ''quest_added'')))"
proof -
  let ?ps' = "AList.update ''createdAt'' (JStr (toISOString e 0)) (AList.update ''id'' (JNum (new_id e)) ps)"
  let ?q = "JObj ?ps'"
  let ?s' = "scheduleSave ((dataStore g)\<lparr>quests := JArr (?q # qs) ex\<rparr>)"
  let ?g' = "g\<lparr>dataStore := ?s'\<rparr>"
  obtain ns r where n: "notify_admins e ?q (adminSockets g) 1 = (ns, r)"
    by (cases "notify_admins e ?q (adminSockets g) 1")
  let ?ems = "(AllClients, ''questAdded'', ?q) # ns"
  have obj: "is_object questData" by (simp add: assms(2))
  have st: "stamped e questData = ?q" by (simp add: assms(2) stamped_JObj)
  have add: "addQuest e questData (dataStore g) = Inr (?s', ?q)"
    using addQuest_stamped [OF obj assms(1), of e] by (simp only: st)
  have "get_prop ?q ''title'' = Inr (own ps ''title'')" by (simp add: own_update)
  then have t: "and_then (get_prop ?q ''title'') (to_string (numberToString e)) = Inr title"
    by (simp add: assms(3))
  from notify_admins_printable(1) [OF t, of "adminSockets g" 1] n have r: "r = None" by simp
  from notify_admins_printable(2) [OF t, of "adminSockets g" 1] n
  have ns_form: "\<forall>x\<in>set ns. \<exists>a\<in>set (adminSockets g). \<exists>ps. x = (Room a, ''adminNotification'', JObj ps) \<and>
      map_of ps ''type'' = Some (JStr ''quest_added'')"
    by simp
  from notify_admins_printable(3) [OF t, of "adminSockets g" 1] n
  have ns_all: "\<forall>a\<in>set (adminSockets g). \<exists>v. (Room a, ''adminNotification'', v) \<in> set ns"
    by simp
  have run: "on_addQuest e sid questData g = Handled ?g' ?ems"
    using n r by (simp add: on_addQuest_def add)
  have mid: "map_of ?ps' ''id'' = Some (JNum (new_id e))" by (simp add: update_conv')
  have mcr: "map_of ?ps' ''createdAt'' = Some (JStr (toISOString e 0))" by (simp add: update_conv')
  have wid: "get_prop (wire ?q) ''id'' = Inr (JNum (new_id e))"
    by (rule wire_object_prop [OF mid]) simp
  have wcr: "get_prop (wire ?q) ''createdAt'' = Inr (JStr (toISOString e 0))"
    by (rule wire_object_prop [OF mcr]) simp
  have recv: "(''questAdded'', wire ?q) \<in> set (inbox g c ?ems) \<and>
              ((\<exists>v. (''adminNotification'', v) \<in> set (inbox g c ?ems)) \<longleftrightarrow> c \<in> set (adminSockets g)) \<and>
              (\<forall>v. (''adminNotification'', v) \<in> set (inbox g c ?ems) \<longrightarrow>
                   get_prop v ''type'' = Inr (JStr ''quest_added''))"
    if c: "c \<in> set (map fst (connectedUsers g))" for c
  proof (intro conjI allI impI iffI)
    have "(AllClients, ''questAdded'', ?q) \<in> set ?ems" by simp
    moreover have "delivered g c AllClients" using c by simp
    ultimately show "(''questAdded'', wire ?q) \<in> set (inbox g c ?ems)"
      unfolding inbox_mem by blast
  next
    assume "\<exists>v. (''adminNotification'', v) \<in> set (inbox g c ?ems)"
    then obtain t v where tv: "(t, ''adminNotification'', v) \<in> set ?ems" "delivered g c t"
      unfolding inbox_mem by blast
    from tv(1) have "(t, ''adminNotification'', v) \<in> set ns" by simp
    with ns_form obtain a where a: "a \<in> set (adminSockets g)" "t = Room a" by blast
    from tv(2) a(2) have "a = c" by simp
    with a(1) show "c \<in> set (adminSockets g)" by simp
  next
    assume "c \<in> set (adminSockets g)"
    with ns_all obtain v where "(Room c, ''adminNotification'', v) \<in> set ns" by blast
    then have "(Room c, ''adminNotification'', v) \<in> set ?ems" by simp
    moreover have "delivered g c (Room c)" using c by simp
    ultimately have "(''adminNotification'', wire v) \<in> set (inbox g c ?ems)"
      unfolding inbox_mem by blast
    then show "\<exists>v. (''adminNotification'', v) \<in> set (inbox g c ?ems)" by blast
  next
    fix w
    assume "(''adminNotification'', w) \<in> set (inbox g c ?ems)"
    then obtain t v where tv: "(t, ''adminNotification'', v) \<in> set ?ems" "w = wire v"
      unfolding inbox_mem by blast
    from tv(1) have "(t, ''adminNotification'', v) \<in> set ns" by simp
    with ns_form obtain nps where nps: "v = JObj nps" "map_of nps ''type'' = Some (JStr ''quest_added'')"
      by blast
    have "get_prop (wire (JObj nps)) ''type'' = Inr (JStr ''quest_added'')"
      by (rule wire_object_prop [OF nps(2)]) simp
    with tv(2) nps(1) show "get_prop w ''type'' = Inr (JStr ''quest_added'')" by simp
  qed
  show ?thesis
  proof (intro exI conjI ballI)
    show "on_addQuest e sid questData g = Handled ?g' ?ems" by (rule run)
    show "connectedUsers ?g' = connectedUsers g" by simp
    show "adminSockets ?g' = adminSockets g" by simp
    show "quests (dataStore ?g') = JArr (?q # qs) ex" by (simp add: scheduleSave_def)
    show "get_prop (wire ?q) ''id'' = Inr (JNum (new_id e))" by (rule wid)
    show "get_prop (wire ?q) ''createdAt'' = Inr (JStr (toISOString e 0))" by (rule wcr)
    show "(''questAdded'', wire ?q) \<in> set (inbox g c ?ems)"
      if "c \<in> set (map fst (connectedUsers g))" for c
      using recv [OF that] by (rule conjunct1)
    show "(\<exists>v. (''adminNotification'', v) \<in> set (inbox g c ?ems)) \<longleftrightarrow> c \<in> set (adminSockets g)"
      if "c \<in> set (map fst (connectedUsers g))" for c
      using recv [OF that] by blast
    show "\<forall>v. (''adminNotification'', v) \<in> set (inbox g c ?ems) \<longrightarrow>
                   get_prop v ''type'' = Inr (JStr ''quest_added'')"
      if "c \<in> set (map fst (connectedUsers g))" for c
      using recv [OF that] by blast
  qed
qed


lemma gateway2_registry:
  "map fst (connectedUsers gateway2) = [''A'', ''B'']"
  "adminSockets gateway2 = [''B'']"
  "dataStore gateway2 = defaults env0"
  by (simp_all add: gateway2_def register_socket_def isAdmin_def)

text \<open>
  The scenario of the specification: \<open>A\<close> sends the quest \<^verbatim>\<open>Fix sign\<close>; \<open>A\<close> and \<open>B\<close>
  both receive \<^verbatim>\<open>questAdded\<close>, and \<open>B\<close> alone an \<^verbatim>\<open>adminNotification\<close>, of type
  \<^verbatim>\<open>quest_added\<close>.
\<close>

theorem addQuest_broadcast_witness:
  "\<exists>g' ems q. on_addQuest env0 ''A''
        (JObj [(''title'', JStr ''Fix sign''), (''user'', JStr ''alice''), (''status'', JStr ''open'')]) gateway2 =
        Handled g' ems \<and>
      get_prop (wire q) ''id'' = Inr (JNum (3400000000001 / 2)) \<and>
      (''questAdded'', wire q) \<in> set (inbox gateway2 ''A'' ems) \<and>
      (''questAdded'', wire q) \<in> set (inbox gateway2 ''B'' ems) \<and>
      (\<exists>v. (''adminNotification'', v) \<in> set (inbox gateway2 ''B'' ems) \<and>
           get_prop v ''type'' = Inr (JStr ''quest_added'')) \<and>
      \<not> (\<exists>v. (''adminNotification'', v) \<in> set (inbox gateway2 ''A'' ems))"
proof -
  let ?ps = "[(''title'', JStr ''Fix sign''), (''user'', JStr ''alice''), (''status'', JStr ''open'')]"
  have h1: "quests (dataStore gateway2) = JArr [] []" by (simp add: gateway2_registry defaults_def)
  have h3: "to_string (numberToString env0) (own ?ps ''title'') = Inr ''Fix sign''" by (simp add: own_def)
  have n: "new_id env0 = 3400000000001 / 2" by (rule new_id_env0)
  from addQuest_broadcast [OF h1 refl h3, of "''A''"] obtain g' ems q where
      r: "on_addQuest env0 ''A'' (JObj ?ps) gateway2 = Handled g' ems"
         "get_prop (wire q) ''id'' = Inr (JNum (new_id env0))"
         "\<forall>c\<in>set (map fst (connectedUsers gateway2)).
              (''questAdded'', wire q) \<in> set (inbox gateway2 c ems) \<and>
              ((\<exists>v. (''adminNotification'', v) \<in> set (inbox gateway2 c ems)) \<longleftrightarrow> c \<in> set (adminSockets gateway2)) \<and>
              (\<forall>v. (''adminNotification'', v) \<in> set (inbox gateway2 c ems) \<longrightarrow>
                   get_prop v ''type'' = Inr (JStr ''quest_added''))"
    by (elim exE conjE)
  have a: "''A'' \<in> set (map fst (connectedUsers gateway2))" by (simp add: gateway2_registry)
  have b: "''B'' \<in> set (map fst (connectedUsers gateway2))" by (simp add: gateway2_registry)
  from r(3) a have ra: "(''questAdded'', wire q) \<in> set (inbox gateway2 ''A'' ems)"
      "(\<exists>v. (''adminNotification'', v) \<in> set (inbox gateway2 ''A'' ems)) \<longleftrightarrow> ''A'' \<in> set (adminSockets gateway2)"
    by blast+
  from r(3) b have rb: "(''questAdded'', wire q) \<in> set (inbox gateway2 ''B'' ems)"
      "(\<exists>v. (''adminNotification'', v) \<in> set (inbox gateway2 ''B'' ems)) \<longleftrightarrow> ''B'' \<in> set (adminSockets gateway2)"
      "\<forall>v. (''adminNotification'', v) \<in> set (inbox gateway2 ''B'' ems) \<longrightarrow>
                   get_prop v ''type'' = Inr (JStr ''quest_added'')"
    by blast+
  have f2: "get_prop (wire q) ''id'' = Inr (JNum (3400000000001 / 2))" using r(2) by (simp only: n)
  from rb(2) obtain v where f5: "(''adminNotification'', v) \<in> set (inbox gateway2 ''B'' ems)"
    by (auto simp add: gateway2_registry)
  from rb(3) f5 have f5t: "get_prop v ''type'' = Inr (JStr ''quest_added'')" by blast
  have f6: "\<not> (\<exists>v. (''adminNotification'', v) \<in> set (inbox gateway2 ''A'' ems))"
    using ra(2) by (simp add: gateway2_registry)
  from r(1) f2 ra(1) rb(1) f5 f5t f6 show ?thesis by (intro exI conjI)
qed

text \<open>
  Claim C4 as stated fails for a message without a usable payload: on \<^verbatim>\<open>addQuest\<close>
  with \<^verbatim>\<open>null\<close> the store throws at \<^verbatim>\<open>quest.id = ...\<close>, the handler catches, the
  sender receives the \<^verbatim>\<open>error\<close> event and nobody receives \<^verbatim>\<open>questAdded\<close>.
\<close>

theorem addQuest_null_payload_not_broadcast:
  "on_addQuest env0 ''A'' JNull gateway2 =
     Handled gateway2 [(Socket ''A'', ''error'', JObj [(''message'', JStr ''Failed to add quest'')])] \<and>
   inbox gateway2 ''A'' [(Socket ''A'', ''error'', JObj [(''message'', JStr ''Failed to add quest'')])] =
     [(''error'', JObj [(''message'', JStr ''Failed to add quest'')])] \<and>
   inbox gateway2 ''B'' [(Socket ''A'', ''error'', JObj [(''message'', JStr ''Failed to add quest'')])] = []"
proof (intro conjI)
  show "on_addQuest env0 ''A'' JNull gateway2 =
     Handled gateway2 [(Socket ''A'', ''error'', JObj [(''message'', JStr ''Failed to add quest'')])]"
    by (simp add: on_addQuest_def addQuest_def)
  show "inbox gateway2 ''A'' [(Socket ''A'', ''error'', JObj [(''message'', JStr ''Failed to add quest'')])] =
     [(''error'', JObj [(''message'', JStr ''Failed to add quest'')])]"
    by (simp add: inbox_def wire_def)
  show "inbox gateway2 ''B'' [(Socket ''A'', ''error'', JObj [(''message'', JStr ''Failed to add quest'')])] = []"
    by (simp add: inbox_def)
qed

text \<open>
  Why the title must be printable: with a title that is an object having a \<^verbatim>\<open>toString\<close>
  property, the quest is stored and broadcast, then building the first notification
  throws; the sender receives \<^verbatim>\<open>error\<close> as well, and the admin no notification.
\<close>

lemma addQuest_unprintable_title:
  "(case on_addQuest env0 ''A'' (JObj [(''title'', JObj [(''toString'', JNum 1)])]) gateway2 of
      Handled g' ems \<Rightarrow> (map fst (inbox gateway2 ''A'' ems), map fst (inbox gateway2 ''B'' ems))
    | Uncaught err \<Rightarrow> ([], [])) =
   ([''questAdded'', ''error''], [''questAdded''])"
proof -
  let ?q = "stamped env0 (JObj [(''title'', JObj [(''toString'', JNum 1)])])"
  have q0: "quests (dataStore gateway2) = JArr [] []" by (simp add: gateway2_registry defaults_def)
  have add: "addQuest env0 (JObj [(''title'', JObj [(''toString'', JNum 1)])]) (dataStore gateway2) =
      Inr (scheduleSave ((dataStore gateway2)\<lparr>quests := JArr [?q] []\<rparr>), ?q)"
    by (rule addQuest_stamped [OF _ q0]) simp
  have t: "get_prop ?q ''title'' = Inr (JObj [(''toString'', JNum 1)])"
    by (simp add: stamped_other own_def)
  have nt: "notify_admins env0 ?q [''B''] 1 = ([], Some TypeError)"
    by (simp add: t)
  show ?thesis
    using nt by (simp add: on_addQuest_def add gateway2_registry(2) inbox_def gateway2_registry(1))
qed

subsection \<open>Exceptions in the handlers\<close>

text \<open>
  Claim C5, where the code departs from it. The \<^verbatim>\<open>updateQuest\<close> handler takes
  \<^verbatim>\<open>id\<close> and \<^verbatim>\<open>status\<close> out of its payload in the parameter list, before its
  \<^verbatim>\<open>try\<close>: a message whose payload is \<^verbatim>\<open>null\<close> or missing throws a
  \<^verbatim>\<open>TypeError\<close> that the handler does not catch. The \<^verbatim>\<open>addQuest\<close> handler, which
  reads its payload inside the \<^verbatim>\<open>try\<close>, catches the same failure and answers with
  the \<^verbatim>\<open>error\<close> event.
\<close>

theorem updateQuest_without_payload_escapes:
  "on_updateQuest e sid JNull g = Uncaught TypeError \<and>
   on_updateQuest e sid JUndefined g = Uncaught TypeError \<and>
   on_addQuest e sid JNull g =
     Handled g [(Socket sid, ''error'', JObj [(''message'', JStr ''Failed to add quest'')])]"
  by (simp add: on_updateQuest_def on_addQuest_def addQuest_def)

text \<open>
  The \<^verbatim>\<open>getAdminStats\<close> handler has no \<^verbatim>\<open>try\<close> at all: on a store loaded from a
  file whose quest list holds \<^verbatim>\<open>null\<close>, \<^verbatim>\<open>getStats()\<close> throws and the exception
  leaves the handler.
\<close>

lemma getAdminStats_escapes:
  "on_getAdminStats env0 ''A''
     (gateway2\<lparr>dataStore := fst (DataStore env0 (Document (JObj [(''quests'', JArr [JNull] [])])))\<rparr>) =
   Uncaught TypeError"
proof -
  let ?doc = "JObj [(''quests'', JArr [JNull] [])]"
  let ?s = "fst (DataStore env0 (Document ?doc))"
  have n: "\<not> is_nullish ?doc" by simp
  have q: "quests ?s = JArr [JNull] []"
    by (simp add: DataStore_fields loadData_document [OF n] field_def own_def js_or_def)
  have m: "markers ?s = JArr [] []"
    by (simp add: DataStore_fields loadData_document [OF n] field_def own_def js_or_def)
  have "getStats env0 ?s = Inl TypeError"
    by (simp add: getStats_def q m)
  then show ?thesis by (simp add: on_getAdminStats_def)
qed

text \<open>
  The handlers that wrap their body in \<^verbatim>\<open>try\<close> do return whatever the store does:
  \<^verbatim>\<open>addQuest\<close> answers a failure of the store with the \<^verbatim>\<open>error\<close> event to the
  sender, while \<^verbatim>\<open>updateQuest\<close> (once its payload is taken apart) and \<^verbatim>\<open>deleteQuest\<close>
  send their broadcast or nothing. \<^verbatim>\<open>ping\<close> has nothing that can throw.
\<close>

lemma addQuest_handler_catches:
  "\<exists>g' ems. on_addQuest e sid p g = Handled g' ems"
  by (simp add: on_addQuest_def split: sum.splits prod.splits option.splits)

lemma addQuest_failure_answered:
  "addQuest e p (dataStore g) = Inl err \<Longrightarrow>
   on_addQuest e sid p g = Handled g [(Socket sid, ''error'', JObj [(''message'', JStr ''Failed to add quest'')])]"
  by (simp add: on_addQuest_def)

lemma updateQuest_handler_silent:
  "on_updateQuest e sid p g = Handled g' ems \<Longrightarrow> \<forall>x\<in>set ems. fst (snd x) = ''questUpdated''"
  by (auto simp add: on_updateQuest_def split: sum.splits prod.splits if_splits)

lemma deleteQuest_handler_catches:
  "\<exists>g' ems. on_deleteQuest sid i g = Handled g' ems \<and> (\<forall>x\<in>set ems. fst (snd x) = ''questDeleted'')"
  by (simp add: on_deleteQuest_def split: sum.splits prod.splits)

lemma ping_answers:
  "on_ping e sid g = Handled g [(Socket sid, ''pong'', JObj [(''timestamp'', JStr (toISOString e 0))])]"
  by (simp add: on_ping_def)

end
